theory Spec2Isabelle
  imports Main "HOL-Library.Word"
begin

section \<open>The worker message handler of indexedDbWorker/worker.go\<close>

text \<open>
  The Go package keeps, per worker connection, a table of reception handlers keyed on a
  tag and a 64-bit ID, and a per-tag counter from which fresh IDs are drawn. Every
  function that touches the two maps takes the mutex first, so each one is modelled as
  one atomic step on the state: it takes the state and returns the state it leaves.
\<close>

subsection \<open>Data\<close>

text \<open>\<^verbatim>\<open>type Tag string\<close>. Go strings are byte strings; so is \<^typ>\<open>string\<close>.\<close>

type_synonym Tag = string

type_synonym uint64 = "64 word"

type_synonym byte = "8 word"

text \<open>\<^verbatim>\<open>const InitID = uint64(0)\<close>\<close>

definition InitID :: uint64 where
  "InitID = 0"

text \<open>
  \<^verbatim>\<open>type HandlerFn func(data []byte)\<close>. A Go function value is either nil or a closure.
  The closures the application passes in are opaque values of type \<open>'h\<close>; the one closure
  the package builds itself, \<^verbatim>\<open>func([]byte) { ready <- struct{}{} }\<close> in NewWorkerHandler,
  has a constructor of its own.
\<close>

datatype 'h HandlerFn = NilFn | ReadyFn | Fn 'h

text \<open>
  The struct WorkerHandler. The field \<^verbatim>\<open>worker js.Value\<close> is the handle of the Javascript
  object and \<^verbatim>\<open>mux\<close> the mutex; neither holds data of the registry.
\<close>

record 'h WorkerHandler =
  handlers :: "Tag \<rightharpoonup> (uint64 \<rightharpoonup> 'h HandlerFn)"
  handlerIDs :: "Tag \<rightharpoonup> uint64"
  name :: string

text \<open>
  The struct WorkerMessage. A Go \<^verbatim>\<open>[]byte\<close> is nil or a (possibly empty) sequence of bytes;
  the two are told apart by the JSON encoder, so \<open>Data\<close> is an option.
\<close>

record WorkerMessage =
  Tag :: Tag
  ID :: uint64
  Data :: "byte list option"

text \<open>The two \<^verbatim>\<open>errors.Errorf\<close> sites of getHandler, with the arguments they format.\<close>

datatype lookup_error =
    NoHandlersForTag Tag           \<comment> \<open>\<^verbatim>\<open>no handlers found for tag %q\<close>\<close>
  | NoHandlerForID Tag uint64      \<comment> \<open>\<^verbatim>\<open>no %q handler found for ID %d\<close>\<close>

subsection \<open>The registry\<close>

text \<open>
  getNextID: a tag without a counter gets one at InitID; the counter's value is returned
  and the counter is incremented. \<^verbatim>\<open>wh.handlerIDs[tag]++\<close> on a uint64 wraps around.
\<close>

definition getNextID :: "'h WorkerHandler \<Rightarrow> Tag \<Rightarrow> uint64 \<times> 'h WorkerHandler" where
  "getNextID wh tag =
     (let ids = (case handlerIDs wh tag of
                   None \<Rightarrow> (handlerIDs wh)(tag \<mapsto> InitID)
                 | Some _ \<Rightarrow> handlerIDs wh);
          idv = (case ids tag of None \<Rightarrow> InitID | Some c \<Rightarrow> c)
      in (idv, wh\<lparr>handlerIDs := ids(tag \<mapsto> idv + 1)\<rparr>))"

text \<open>
  RegisterHandler: with autoID the given ID is replaced by the next ID of the tag; the
  tag's map is created when missing; the handler is stored, over whatever was there.
\<close>

definition RegisterHandler ::
  "'h WorkerHandler \<Rightarrow> Tag \<Rightarrow> uint64 \<Rightarrow> bool \<Rightarrow> 'h HandlerFn \<Rightarrow> uint64 \<times> 'h WorkerHandler" where
  "RegisterHandler wh tag idv autoID handler =
     (let (id', wh1) = (if autoID then getNextID wh tag else (idv, wh));
          hs = (case handlers wh1 tag of None \<Rightarrow> Map.empty | Some m \<Rightarrow> m)
      in (id', wh1\<lparr>handlers := (handlers wh1)(tag \<mapsto> hs(id' \<mapsto> handler))\<rparr>))"

text \<open>
  getHandler. The table \<^verbatim>\<open>deleteAfterReceiving\<close> (a \<^verbatim>\<open>map[Tag]struct{}\<close> used as a set) is
  declared elsewhere in the package, beside the tags; worker.go only looks tags up in it.
  Its contents are left open: it is the parameter \<open>dar\<close>, and what is proved holds for
  every table. \<^verbatim>\<open>len(wh.handlers[tag]) == 0\<close> holds when the map has no key.
\<close>

definition getHandler ::
  "Tag set \<Rightarrow> 'h WorkerHandler \<Rightarrow> Tag \<Rightarrow> uint64 \<Rightarrow>
     (lookup_error + 'h HandlerFn) \<times> 'h WorkerHandler" where
  "getHandler dar wh tag idv =
     (case handlers wh tag of
        None \<Rightarrow> (Inl (NoHandlersForTag tag), wh)
      | Some hs \<Rightarrow>
          (case hs idv of
             None \<Rightarrow> (Inl (NoHandlerForID tag idv), wh)
           | Some handler \<Rightarrow>
               (if tag \<in> dar then
                  (let hs' = hs(idv := None);
                       wh1 = wh\<lparr>handlers := (handlers wh)(tag \<mapsto> hs')\<rparr>;
                       wh2 = (if dom hs' = {}
                              then wh1\<lparr>handlers := (handlers wh1)(tag := None)\<rparr>
                              else wh1)
                   in (Inr handler, wh2))
                else (Inr handler, wh))))"

text \<open>The state NewWorkerHandler builds before anything is registered.\<close>

definition new_handler :: "string \<Rightarrow> 'h WorkerHandler" where
  "new_handler nm = \<lparr>handlers = Map.empty, handlerIDs = Map.empty, name = nm\<rparr>"

text \<open>The handler stored at a tag and ID, if any.\<close>

definition handler_at :: "'h WorkerHandler \<Rightarrow> Tag \<Rightarrow> uint64 \<Rightarrow> 'h HandlerFn option" where
  "handler_at wh tag idv = (case handlers wh tag of None \<Rightarrow> None | Some hs \<Rightarrow> hs idv)"

text \<open>The ID the next automatic registration for a tag will return.\<close>

definition next_id :: "'h WorkerHandler \<Rightarrow> Tag \<Rightarrow> uint64" where
  "next_id wh tag = (case handlerIDs wh tag of None \<Rightarrow> InitID | Some c \<Rightarrow> c)"

section \<open>The JSON encoding of WorkerMessage\<close>

text \<open>
  SendMessage and receiveMessage hand the struct to \<^verbatim>\<open>json.Marshal\<close> and \<^verbatim>\<open>json.Unmarshal\<close>
  of Go's standard library. What these do for the three fields of WorkerMessage is
  written out here as the documentation of the packages encoding/json, encoding/base64,
  strconv, unicode/utf8 and unicode/utf16 gives it, and where the documentation leaves the
  outcome open, as the decoder of Go 1.17 does, the release the module file names:
  \<^item> a string is written as a JSON string coerced to valid UTF-8 (an invalid byte becomes
    U+FFFD), with the quote, the backslash, the control characters, the characters
    \<^verbatim>\<open><\<close>, \<^verbatim>\<open>>\<close>, \<^verbatim>\<open>&\<close> and U+2028, U+2029 escaped;
  \<^item> a uint64 is written as a decimal number;
  \<^item> a \<^verbatim>\<open>[]byte\<close> is written as a string in padded standard base64, a nil one as \<^verbatim>\<open>null\<close>;
  \<^item> reading checks the whole text against the JSON grammar first, then matches each key
    of the object against the names \<^verbatim>\<open>tag\<close>, \<^verbatim>\<open>id\<close>, \<^verbatim>\<open>data\<close>, exactly or else without regard to
    case; other keys are skipped, a field without a key keeps its zero value, \<^verbatim>\<open>null\<close>
    leaves a string or a number as it is and makes a slice nil, and a value of the wrong
    JSON type is skipped while the first such error is kept and returned at the end;
  \<^item> a \<^verbatim>\<open>[]byte\<close> also takes an array of numbers from 0 to 255, which is decoded into the
    slice that an earlier member for the same field has left: an element that is \<^verbatim>\<open>null\<close> or
    is reported keeps the byte the slice had at that index.
\<close>

subsection \<open>UTF-8\<close>

text \<open>
  A Go string is a sequence of bytes; \<open>code\<close> is the value of a byte. \<open>rune_len\<close> is the
  size that \<^verbatim>\<open>utf8.DecodeRuneInString\<close> reports for the first rune of a string when the
  string starts with a well-formed UTF-8 sequence (one to four bytes, with the ranges of
  the second byte that rule out over-long forms, surrogates and values above U+10FFFF),
  and 0 when it does not, where Go reports \<^verbatim>\<open>(RuneError, 1)\<close>.
\<close>

abbreviation code :: "char \<Rightarrow> nat" where
  "code c \<equiv> of_char c"

definition in_range :: "nat \<Rightarrow> nat \<Rightarrow> char \<Rightarrow> bool" where
  "in_range lo hi c = (lo \<le> code c \<and> code c \<le> hi)"

fun rune_len :: "string \<Rightarrow> nat" where
  "rune_len [] = 0"
| "rune_len (c # cs) =
     (if code c < 0x80 then 1
      else if in_range 0xC2 0xDF c then
        (case cs of c1 # _ \<Rightarrow> if in_range 0x80 0xBF c1 then 2 else 0 | _ \<Rightarrow> 0)
      else if in_range 0xE0 0xEF c then
        (case cs of
           c1 # c2 # _ \<Rightarrow>
             if in_range (if code c = 0xE0 then 0xA0 else 0x80)
                         (if code c = 0xED then 0x9F else 0xBF) c1
                \<and> in_range 0x80 0xBF c2
             then 3 else 0
         | _ \<Rightarrow> 0)
      else if in_range 0xF0 0xF4 c then
        (case cs of
           c1 # c2 # c3 # _ \<Rightarrow>
             if in_range (if code c = 0xF0 then 0x90 else 0x80)
                         (if code c = 0xF4 then 0x8F else 0xBF) c1
                \<and> in_range 0x80 0xBF c2 \<and> in_range 0x80 0xBF c3
             then 4 else 0
         | _ \<Rightarrow> 0)
      else 0)"

declare rune_len.simps [simp del]

text \<open>\<^verbatim>\<open>utf8.ValidString\<close>: the string is a sequence of well-formed UTF-8 sequences.\<close>

function ValidString :: "string \<Rightarrow> bool" where
  "ValidString [] = True"
| "ValidString (c # cs) =
     (let n = rune_len (c # cs) in n \<noteq> 0 \<and> ValidString (drop (n - 1) cs))"
  by pat_completeness auto
termination
  by (relation "measure length") auto

text \<open>
  \<^verbatim>\<open>utf8.EncodeRune\<close>: the UTF-8 encoding of a code point; a surrogate or a value out of
  range is written as U+FFFD.
\<close>

definition EncodeRune :: "nat \<Rightarrow> string" where
  "EncodeRune r =
     (if r < 0x80 then [char_of r]
      else if r < 0x800 then [char_of (0xC0 + r div 64), char_of (0x80 + r mod 64)]
      else if (0xD800 \<le> r \<and> r \<le> 0xDFFF) \<or> 0x10FFFF < r then [CHR 0xEF, CHR 0xBF, CHR 0xBD]
      else if r < 0x10000 then
        [char_of (0xE0 + r div 4096), char_of (0x80 + r div 64 mod 64), char_of (0x80 + r mod 64)]
      else
        [char_of (0xF0 + r div 262144), char_of (0x80 + r div 4096 mod 64),
         char_of (0x80 + r div 64 mod 64), char_of (0x80 + r mod 64)])"

text \<open>
  The encoder's string writer, with HTML escaping as Marshal has it. An ASCII character
  is copied when it is at least a space and none of \<^verbatim>\<open>"\<close>, \<^verbatim>\<open>\\<close>, \<^verbatim>\<open><\<close>, \<^verbatim>\<open>>\<close>, \<^verbatim>\<open>&\<close>; the quote
  and the backslash get a backslash, newline, carriage return and tab their letter, and
  the rest \<^verbatim>\<open>\u00\<close> and two hexadecimal digits. Beyond ASCII, a byte that starts no
  well-formed sequence is written as \<^verbatim>\<open>\ufffd\<close>, U+2028 and U+2029 are escaped, and every
  other sequence is copied.
\<close>

definition hex_digit :: "nat \<Rightarrow> char" where
  "hex_digit n = ''0123456789abcdef'' ! n"

definition html_safe :: "char \<Rightarrow> bool" where
  \<open>html_safe c = (0x20 \<le> code c \<and> code c < 0x80 \<and>
      c \<noteq> CHR ''"'' \<and> c \<noteq> CHR 0x5C \<and> c \<noteq> CHR ''<'' \<and> c \<noteq> CHR ''>'' \<and> c \<noteq> CHR ''&'')\<close>

definition escape_ascii :: "char \<Rightarrow> string" where
  \<open>escape_ascii c =
     (if html_safe c then [c]
      else if c = CHR 0x5C \<or> c = CHR ''"'' then [CHR 0x5C, c]
      else if c = CHR 0x0A then [CHR 0x5C, CHR ''n'']
      else if c = CHR 0x0D then [CHR 0x5C, CHR ''r'']
      else if c = CHR 0x09 then [CHR 0x5C, CHR ''t'']
      else [CHR 0x5C, CHR ''u'', CHR ''0'', CHR ''0'',
            hex_digit (code c div 16), hex_digit (code c mod 16)])\<close>

function encode_chars :: "string \<Rightarrow> string" where
  "encode_chars [] = []"
| "encode_chars (c # cs) =
     (if code c < 0x80 then escape_ascii c @ encode_chars cs
      else
        (let n = rune_len (c # cs) in
         if n = 0 then [CHR 0x5C, CHR ''u'', CHR ''f'', CHR ''f'', CHR ''f'', CHR ''d'']
                       @ encode_chars cs
         else if take n (c # cs) = [CHR 0xE2, CHR 0x80, CHR 0xA8] then
           [CHR 0x5C, CHR ''u'', CHR ''2'', CHR ''0'', CHR ''2'', CHR ''8'']
           @ encode_chars (drop (n - 1) cs)
         else if take n (c # cs) = [CHR 0xE2, CHR 0x80, CHR 0xA9] then
           [CHR 0x5C, CHR ''u'', CHR ''2'', CHR ''0'', CHR ''2'', CHR ''9'']
           @ encode_chars (drop (n - 1) cs)
         else take n (c # cs) @ encode_chars (drop (n - 1) cs)))"
  by pat_completeness auto
termination
  by (relation "measure length") auto

definition encode_string :: "string \<Rightarrow> string" where
  \<open>encode_string s = CHR ''"'' # encode_chars s @ [CHR ''"'']\<close>

text \<open>
  The decoder's \<^verbatim>\<open>unquote\<close>, applied behind the opening quote: it returns the string
  and the text behind the closing quote, and nothing where the scanner rejects the
  text (a control character, an unknown escape, fewer than four hexadecimal digits
  behind \<^verbatim>\<open>\u\<close>, no closing quote). A \<^verbatim>\<open>\u\<close> escape that is a high surrogate is joined with a
  low surrogate escape that follows it; a surrogate without its partner becomes U+FFFD,
  and so does a byte that starts no well-formed sequence.
\<close>

definition hex_val :: "char \<Rightarrow> nat option" where
  "hex_val c =
     (if in_range 0x30 0x39 c then Some (code c - 0x30)
      else if in_range 0x61 0x66 c then Some (code c - 0x61 + 10)
      else if in_range 0x41 0x46 c then Some (code c - 0x41 + 10)
      else None)"

fun getu4 :: "string \<Rightarrow> nat option" where
  "getu4 (a # b # c # d # _) =
     (case (hex_val a, hex_val b, hex_val c, hex_val d) of
        (Some x3, Some x2, Some x1, Some x0) \<Rightarrow> Some (((x3 * 16 + x2) * 16 + x1) * 16 + x0)
      | _ \<Rightarrow> None)"
| "getu4 _ = None"

definition IsSurrogate :: "nat \<Rightarrow> bool" where
  "IsSurrogate r = (0xD800 \<le> r \<and> r < 0xE000)"

definition surrogate_pair :: "nat \<Rightarrow> string \<Rightarrow> nat option" where
  \<open>surrogate_pair r1 s =
     (case s of
        b # u # hx \<Rightarrow>
          if b = CHR 0x5C \<and> u = CHR ''u'' then
            (case getu4 hx of
               Some r2 \<Rightarrow>
                 if r1 < 0xDC00 \<and> 0xDC00 \<le> r2 \<and> r2 < 0xE000
                 then Some ((r1 - 0xD800) * 1024 + (r2 - 0xDC00) + 0x10000)
                 else None
             | None \<Rightarrow> None)
          else None
      | _ \<Rightarrow> None)\<close>

definition simple_escape :: "char \<Rightarrow> char option" where
  \<open>simple_escape e =
     (if e = CHR ''"'' \<or> e = CHR 0x5C \<or> e = CHR ''/'' then Some e
      else if e = CHR ''b'' then Some (CHR 0x08)
      else if e = CHR ''f'' then Some (CHR 0x0C)
      else if e = CHR ''n'' then Some (CHR 0x0A)
      else if e = CHR ''r'' then Some (CHR 0x0D)
      else if e = CHR ''t'' then Some (CHR 0x09)
      else None)\<close>

definition prepend :: "string \<Rightarrow> (string \<times> string) option \<Rightarrow> (string \<times> string) option" where
  "prepend xs r = (case r of None \<Rightarrow> None | Some (s, rest) \<Rightarrow> Some (xs @ s, rest))"

function unquote :: "string \<Rightarrow> (string \<times> string) option" where
  "unquote [] = None"
| \<open>unquote (c # cs) =
     (if c = CHR ''"'' then Some ([], cs)
      else if c = CHR 0x5C then
        (case cs of
           [] \<Rightarrow> None
         | e # es \<Rightarrow>
             if e = CHR ''u'' then
               (case getu4 es of
                  None \<Rightarrow> None
                | Some rr \<Rightarrow>
                    if IsSurrogate rr then
                      (case surrogate_pair rr (drop 4 es) of
                         Some dec \<Rightarrow> prepend (EncodeRune dec) (unquote (drop 10 es))
                       | None \<Rightarrow> prepend (EncodeRune 0xFFFD) (unquote (drop 4 es)))
                    else prepend (EncodeRune rr) (unquote (drop 4 es)))
             else
               (case simple_escape e of
                  None \<Rightarrow> None
                | Some x \<Rightarrow> prepend [x] (unquote es)))
      else if code c < 0x20 then None
      else if code c < 0x80 then prepend [c] (unquote cs)
      else
        (let n = rune_len (c # cs) in
         if n = 0 then prepend (EncodeRune 0xFFFD) (unquote cs)
         else prepend (take n (c # cs)) (unquote (drop (n - 1) cs))))\<close>
  by pat_completeness auto
termination
  by (relation "measure length") auto

subsection \<open>Base64\<close>

text \<open>
  \<^verbatim>\<open>base64.StdEncoding\<close>: three bytes make four characters of the alphabet, and a last
  group of one or two bytes is padded with \<^verbatim>\<open>=\<close>. Decoding skips carriage returns and
  newlines, and fails on any other character outside the alphabet, on a group that is
  not complete, and on padding that is not at the very end.
\<close>

definition b64_alphabet :: string where
  "b64_alphabet = ''ABCDEFGHIJKLMNOPQRSTUVWXYZabcdefghijklmnopqrstuvwxyz0123456789+/''"

definition b64_char :: "nat \<Rightarrow> char" where
  "b64_char n = b64_alphabet ! n"

definition b64_val :: "char \<Rightarrow> nat option" where
  "b64_val c =
     (if in_range 0x41 0x5A c then Some (code c - 0x41)
      else if in_range 0x61 0x7A c then Some (code c - 0x61 + 26)
      else if in_range 0x30 0x39 c then Some (code c - 0x30 + 52)
      else if c = CHR ''+'' then Some 62
      else if c = CHR ''/'' then Some 63
      else None)"

fun EncodeToString :: "byte list \<Rightarrow> string" where
  "EncodeToString [] = []"
| "EncodeToString [a] =
     (let n = unat a * 65536
      in [b64_char (n div 262144), b64_char (n div 4096 mod 64), CHR ''='', CHR ''=''])"
| "EncodeToString [a, b] =
     (let n = unat a * 65536 + unat b * 256
      in [b64_char (n div 262144), b64_char (n div 4096 mod 64), b64_char (n div 64 mod 64),
          CHR ''=''])"
| "EncodeToString (a # b # c # rest) =
     (let n = unat a * 65536 + unat b * 256 + unat c
      in [b64_char (n div 262144), b64_char (n div 4096 mod 64), b64_char (n div 64 mod 64),
          b64_char (n mod 64)] @ EncodeToString rest)"

fun decode_quanta :: "string \<Rightarrow> byte list option" where
  "decode_quanta [] = Some []"
| "decode_quanta (a # b # c # d # rest) =
     (case (b64_val a, b64_val b) of
        (Some va, Some vb) \<Rightarrow>
          (if c = CHR ''='' then
             (if d = CHR ''='' \<and> rest = []
              then Some [of_nat ((va * 64 + vb) div 16)]
              else None)
           else
             (case b64_val c of
                None \<Rightarrow> None
              | Some vc \<Rightarrow>
                  (if d = CHR ''='' then
                     (if rest = []
                      then Some [of_nat (((va * 64 + vb) * 64 + vc) div 1024),
                                 of_nat (((va * 64 + vb) * 64 + vc) div 4)]
                      else None)
                   else
                     (case b64_val d of
                        None \<Rightarrow> None
                      | Some vd \<Rightarrow>
                          (let n = ((va * 64 + vb) * 64 + vc) * 64 + vd
                           in (case decode_quanta rest of
                                 None \<Rightarrow> None
                               | Some bs \<Rightarrow>
                                   Some (of_nat (n div 65536) # of_nat (n div 256) # of_nat n
                                         # bs)))))))
      | _ \<Rightarrow> None)"
| "decode_quanta _ = None"

definition DecodeString :: "string \<Rightarrow> byte list option" where
  "DecodeString s = decode_quanta (filter (\<lambda>c. c \<noteq> CHR 0x0A \<and> c \<noteq> CHR 0x0D) s)"

subsection \<open>Numbers\<close>

text \<open>
  \<^verbatim>\<open>strconv.FormatUint\<close> and \<^verbatim>\<open>strconv.ParseUint\<close> in base 10, and the number literal of the
  JSON grammar: an optional minus, \<^verbatim>\<open>0\<close> or a digit from 1 to 9 followed by digits, an
  optional fraction, an optional exponent. \<open>scan_number\<close> returns the literal at the head
  of the text and the text behind it.
\<close>

definition is_digit :: "char \<Rightarrow> bool" where
  "is_digit c = in_range 0x30 0x39 c"

definition digit_char :: "nat \<Rightarrow> char" where
  "digit_char d = char_of (0x30 + d)"

function FormatUint :: "nat \<Rightarrow> string" where
  "FormatUint n = (if n < 10 then [digit_char n] else FormatUint (n div 10) @ [digit_char (n mod 10)])"
  by pat_completeness auto
termination
  by (relation "measure id") auto

declare FormatUint.simps [simp del]

definition ParseUint :: "string \<Rightarrow> nat \<Rightarrow> nat option" where
  "ParseUint s bitSize =
     (if s = [] \<or> \<not> list_all is_digit s then None
      else (let n = foldl (\<lambda>a c. a * 10 + (code c - 0x30)) 0 s
            in if n < 2 ^ bitSize then Some n else None))"

definition digits1 :: "string \<Rightarrow> (string \<times> string) option" where
  "digits1 s = (if takeWhile is_digit s = [] then None
                else Some (takeWhile is_digit s, dropWhile is_digit s))"

definition scan_sign :: "string \<Rightarrow> string \<times> string" where
  "scan_sign s = (case s of [] \<Rightarrow> ([], s) | c # r \<Rightarrow> if c = CHR ''-'' then ([c], r) else ([], s))"

definition scan_int :: "string \<Rightarrow> (string \<times> string) option" where
  "scan_int s =
     (case s of
        [] \<Rightarrow> None
      | c # r \<Rightarrow> if c = CHR ''0'' then Some ([c], r) else digits1 s)"

definition scan_frac :: "string \<Rightarrow> (string \<times> string) option" where
  "scan_frac s =
     (case s of
        [] \<Rightarrow> Some ([], s)
      | c # r \<Rightarrow>
          if c = CHR ''.'' then
            (case digits1 r of None \<Rightarrow> None | Some (ds, r') \<Rightarrow> Some (c # ds, r'))
          else Some ([], s))"

definition scan_exp_sign :: "string \<Rightarrow> string \<times> string" where
  "scan_exp_sign s =
     (case s of
        [] \<Rightarrow> ([], s)
      | c # r \<Rightarrow> if c = CHR ''+'' \<or> c = CHR ''-'' then ([c], r) else ([], s))"

definition scan_exp :: "string \<Rightarrow> (string \<times> string) option" where
  "scan_exp s =
     (case s of
        [] \<Rightarrow> Some ([], s)
      | c # r \<Rightarrow>
          if c = CHR ''e'' \<or> c = CHR ''E'' then
            (case digits1 (snd (scan_exp_sign r)) of
               None \<Rightarrow> None
             | Some (ds, r') \<Rightarrow> Some (c # fst (scan_exp_sign r) @ ds, r'))
          else Some ([], s))"

definition scan_number :: "string \<Rightarrow> (string \<times> string) option" where
  "scan_number s =
     (case scan_int (snd (scan_sign s)) of
        None \<Rightarrow> None
      | Some (ip, s1) \<Rightarrow>
          (case scan_frac s1 of
             None \<Rightarrow> None
           | Some (fp, s2) \<Rightarrow>
               (case scan_exp s2 of
                  None \<Rightarrow> None
                | Some (ep, s3) \<Rightarrow> Some (fst (scan_sign s) @ ip @ fp @ ep, s3))))"

subsection \<open>Tokens\<close>

text \<open>
  The scanner reads the text as a sequence of tokens, with white space between them.
  The two lemmas on the lengths are what the recursion of \<open>lex\<close> rests on.
\<close>

datatype token =
  LBrace | RBrace | LBrack | RBrack | Colon | Comma
  | TString string | TNumber string | TTrue | TFalse | TNull

definition is_space :: "char \<Rightarrow> bool" where
  "is_space c = (c = CHR '' '' \<or> c = CHR 0x09 \<or> c = CHR 0x0D \<or> c = CHR 0x0A)"

definition cons_token :: "token \<Rightarrow> token list option \<Rightarrow> token list option" where
  "cons_token t r = (case r of None \<Rightarrow> None | Some ts \<Rightarrow> Some (t # ts))"

lemma prepend_Some: "prepend xs r = Some (t, rest) \<longleftrightarrow> (\<exists>s. r = Some (s, rest) \<and> t = xs @ s)"
  by (auto simp: prepend_def split: option.splits)

lemma unquote_length: "unquote s = Some (t, rest) \<Longrightarrow> length rest < length s"
proof (induction "length s" arbitrary: s t rule: less_induct)
  case less
  show ?case
  proof (cases s)
    case Nil
    with less.prems show ?thesis by simp
  next
    case (Cons c cs)
    have IH: "length rest < Suc (length cs)"
      if "unquote s' = Some (t', rest)" and "length s' \<le> length cs" for s' t'
    proof -
      from that(2) Cons have "length s' < length s" by simp
      from less.hyps[OF this that(1)] that(2) show ?thesis by simp
    qed
    from less.prems show ?thesis
      unfolding Cons unquote.simps
      by (auto simp: prepend_Some Let_def split: if_splits list.splits option.splits
               dest!: IH)
  qed
qed

lemma digits1_Some: "digits1 s = Some (ds, r) \<Longrightarrow> s = ds @ r \<and> ds \<noteq> []"
  by (auto simp: digits1_def split: if_splits)

lemma scan_sign_eq: "fst (scan_sign s) @ snd (scan_sign s) = s"
  by (simp add: scan_sign_def split: list.splits)

lemma scan_exp_sign_eq: "fst (scan_exp_sign s) @ snd (scan_exp_sign s) = s"
  by (simp add: scan_exp_sign_def split: list.splits)

lemma scan_int_Some: "scan_int s = Some (ds, r) \<Longrightarrow> s = ds @ r \<and> ds \<noteq> []"
  by (auto simp: scan_int_def split: list.splits if_splits dest: digits1_Some)

lemma scan_frac_Some: "scan_frac s = Some (ds, r) \<Longrightarrow> s = ds @ r"
  by (auto simp: scan_frac_def split: list.splits if_splits option.splits dest: digits1_Some)

lemma scan_exp_Some: "scan_exp s = Some (ds, r) \<Longrightarrow> s = ds @ r"
proof (cases s)
  case Nil
  assume "scan_exp s = Some (ds, r)"
  with Nil show ?thesis by (simp add: scan_exp_def)
next
  case (Cons c cs)
  assume a: "scan_exp s = Some (ds, r)"
  show ?thesis
  proof (cases "c = CHR ''e'' \<or> c = CHR ''E''")
    case False
    with a Cons show ?thesis by (simp add: scan_exp_def)
  next
    case True
    with a Cons obtain es r' where d: "digits1 (snd (scan_exp_sign cs)) = Some (es, r')"
      and ds: "ds = c # fst (scan_exp_sign cs) @ es" and r: "r = r'"
      by (auto simp: scan_exp_def split: option.splits)
    from digits1_Some[OF d] have "snd (scan_exp_sign cs) = es @ r'" by simp
    with scan_exp_sign_eq[of cs] have "cs = fst (scan_exp_sign cs) @ es @ r'" by simp
    with ds r Cons show ?thesis by simp
  qed
qed

lemma scan_number_Some: "scan_number s = Some (lit, rest) \<Longrightarrow> s = lit @ rest \<and> lit \<noteq> []"
proof -
  assume a: "scan_number s = Some (lit, rest)"
  then obtain ip s1 fp s2 ep where
    i: "scan_int (snd (scan_sign s)) = Some (ip, s1)" and
    f: "scan_frac s1 = Some (fp, s2)" and
    e: "scan_exp s2 = Some (ep, rest)" and
    l: "lit = fst (scan_sign s) @ ip @ fp @ ep"
    by (auto simp: scan_number_def split: option.splits)
  from scan_int_Some[OF i] scan_frac_Some[OF f] scan_exp_Some[OF e]
  have "snd (scan_sign s) = ip @ fp @ ep @ rest" and "ip \<noteq> []" by simp_all
  with scan_sign_eq[of s] l show ?thesis by (metis append.assoc append_is_Nil_conv)
qed

lemma scan_number_length: "scan_number s = Some (lit, rest) \<Longrightarrow> length rest < length s"
  by (drule scan_number_Some) auto

function lex :: "string \<Rightarrow> token list option" where
  "lex [] = Some []"
| \<open>lex (c # cs) =
     (if is_space c then lex cs
      else if c = CHR ''{'' then cons_token LBrace (lex cs)
      else if c = CHR ''}'' then cons_token RBrace (lex cs)
      else if c = CHR ''['' then cons_token LBrack (lex cs)
      else if c = CHR '']'' then cons_token RBrack (lex cs)
      else if c = CHR '':'' then cons_token Colon (lex cs)
      else if c = CHR '','' then cons_token Comma (lex cs)
      else if c = CHR ''"'' then
        (case unquote cs of
           None \<Rightarrow> None
         | Some (s, rest) \<Rightarrow> cons_token (TString s) (lex rest))
      else if c = CHR ''-'' \<or> is_digit c then
        (case scan_number (c # cs) of
           None \<Rightarrow> None
         | Some (lit, rest) \<Rightarrow> cons_token (TNumber lit) (lex rest))
      else if c = CHR ''t'' \<and> take 3 cs = ''rue'' then cons_token TTrue (lex (drop 3 cs))
      else if c = CHR ''f'' \<and> take 4 cs = ''alse'' then cons_token TFalse (lex (drop 4 cs))
      else if c = CHR ''n'' \<and> take 3 cs = ''ull'' then cons_token TNull (lex (drop 3 cs))
      else None)\<close>
  by pat_completeness auto
termination
proof (relation "measure length", goal_cases)
  case (9 c cs x2 s rest)
  then have "unquote cs = Some (s, rest)" by simp
  from unquote_length[OF this] show ?case by simp
next
  case (10 c cs x2 lit rest)
  then have "scan_number (c # cs) = Some (lit, rest)" by simp
  from scan_number_length[OF this] show ?case by simp
qed (simp_all (no_asm))

subsection \<open>Values\<close>

text \<open>
  The grammar, as the automaton of the scanner: a state and a stack of the arrays and
  objects that are open. Pushing onto a stack that holds \<^verbatim>\<open>maxNestingDepth\<close> entries is
  the error \<^verbatim>\<open>exceeded max depth\<close>. \<open>parse_json\<close> returns the value of a text that is valid
  JSON, and nothing for a text on which \<^verbatim>\<open>checkValid\<close> returns a \<^verbatim>\<open>SyntaxError\<close>.
\<close>

datatype json =
  JNull | JBool bool | JNumber string | JString string
  | JArray "json list" | JObject "(string \<times> json) list"

datatype ctx =
  InArray "json list" | InObject "(string \<times> json) list" | InMember "(string \<times> json) list" string

datatype pstate =
  BeginValue | BeginValueOrEmpty | BeginStringOrEmpty | BeginString | ObjectKey
  | EndValue | EndTop json

definition maxNestingDepth :: nat where
  "maxNestingDepth = 10000"

definition deliver :: "json \<Rightarrow> ctx list \<Rightarrow> (pstate \<times> ctx list) option" where
  "deliver v stack =
     (case stack of
        [] \<Rightarrow> Some (EndTop v, [])
      | InArray vs # st \<Rightarrow> Some (EndValue, InArray (vs @ [v]) # st)
      | InMember ms k # st \<Rightarrow> Some (EndValue, InObject (ms @ [(k, v)]) # st)
      | InObject ms # st \<Rightarrow> None)"

definition push :: "ctx \<Rightarrow> pstate \<Rightarrow> ctx list \<Rightarrow> (pstate \<times> ctx list) option" where
  "push f st stack = (if maxNestingDepth < Suc (length stack) then None else Some (st, f # stack))"

definition begin_value :: "token \<Rightarrow> ctx list \<Rightarrow> (pstate \<times> ctx list) option" where
  "begin_value t stack =
     (case t of
        LBrace \<Rightarrow> push (InObject []) BeginStringOrEmpty stack
      | LBrack \<Rightarrow> push (InArray []) BeginValueOrEmpty stack
      | TString s \<Rightarrow> deliver (JString s) stack
      | TNumber lit \<Rightarrow> deliver (JNumber lit) stack
      | TTrue \<Rightarrow> deliver (JBool True) stack
      | TFalse \<Rightarrow> deliver (JBool False) stack
      | TNull \<Rightarrow> deliver JNull stack
      | _ \<Rightarrow> None)"

definition begin_string :: "token \<Rightarrow> ctx list \<Rightarrow> (pstate \<times> ctx list) option" where
  "begin_string t stack =
     (case (t, stack) of
        (TString k, InObject ms # st) \<Rightarrow> Some (ObjectKey, InMember ms k # st)
      | _ \<Rightarrow> None)"

definition step :: "pstate \<Rightarrow> ctx list \<Rightarrow> token \<Rightarrow> (pstate \<times> ctx list) option" where
  "step st stack t =
     (case st of
        BeginValue \<Rightarrow> begin_value t stack
      | BeginValueOrEmpty \<Rightarrow>
          (case (t, stack) of
             (RBrack, InArray vs # rest) \<Rightarrow> deliver (JArray vs) rest
           | _ \<Rightarrow> begin_value t stack)
      | BeginStringOrEmpty \<Rightarrow>
          (case (t, stack) of
             (RBrace, InObject ms # rest) \<Rightarrow> deliver (JObject ms) rest
           | _ \<Rightarrow> begin_string t stack)
      | BeginString \<Rightarrow> begin_string t stack
      | ObjectKey \<Rightarrow> (case t of Colon \<Rightarrow> Some (BeginValue, stack) | _ \<Rightarrow> None)
      | EndValue \<Rightarrow>
          (case (t, stack) of
             (Comma, InArray vs # rest) \<Rightarrow> Some (BeginValue, stack)
           | (Comma, InObject ms # rest) \<Rightarrow> Some (BeginString, stack)
           | (RBrack, InArray vs # rest) \<Rightarrow> deliver (JArray vs) rest
           | (RBrace, InObject ms # rest) \<Rightarrow> deliver (JObject ms) rest
           | _ \<Rightarrow> None)
      | EndTop v \<Rightarrow> None)"

fun parse_tokens :: "pstate \<Rightarrow> ctx list \<Rightarrow> token list \<Rightarrow> json option" where
  "parse_tokens st stack [] = (case st of EndTop v \<Rightarrow> Some v | _ \<Rightarrow> None)"
| "parse_tokens st stack (t # ts) =
     (case step st stack t of
        None \<Rightarrow> None
      | Some (st', stack') \<Rightarrow> parse_tokens st' stack' ts)"

definition parse_json :: "string \<Rightarrow> json option" where
  "parse_json s = (case lex s of None \<Rightarrow> None | Some ts \<Rightarrow> parse_tokens BeginValue [] ts)"

subsection \<open>Marshal and Unmarshal\<close>

text \<open>
  The errors of Unmarshal: a \<^verbatim>\<open>SyntaxError\<close>, an \<^verbatim>\<open>UnmarshalTypeError\<close> with the description
  of the JSON value in its field \<^verbatim>\<open>Value\<close>, and the \<^verbatim>\<open>CorruptInputError\<close> of base64.

  A key is matched to a field by its exact name first, then without regard to case.
  Each field stores a value of its type, ignores \<^verbatim>\<open>null\<close> (which makes a slice nil) and
  reports any other value; a \<^verbatim>\<open>[]byte\<close> also takes an array of numbers from 0 to 255.
  \<open>saveError\<close> keeps the first error. \<open>object\<close> goes through the members in order, each
  decoded into the field as the members before it have left it, so of two members for
  one field the later one is decoded last. A text that is \<^verbatim>\<open>null\<close> leaves the struct as it
  is, and a text that is no object is an error.
\<close>

datatype json_error = SyntaxError | UnmarshalTypeError string | CorruptInputError

definition value_name :: "json \<Rightarrow> string" where
  "value_name v =
     (case v of
        JNull \<Rightarrow> ''null''
      | JBool b \<Rightarrow> ''bool''
      | JNumber lit \<Rightarrow> ''number''
      | JString s \<Rightarrow> ''string''
      | JArray vs \<Rightarrow> ''array''
      | JObject ms \<Rightarrow> ''object'')"

definition lower :: "char \<Rightarrow> char" where
  "lower c = (if in_range 0x41 0x5A c then char_of (code c + 32) else c)"

datatype field = FieldTag | FieldID | FieldData

definition field_name :: "field \<Rightarrow> string" where
  "field_name f = (case f of FieldTag \<Rightarrow> ''tag'' | FieldID \<Rightarrow> ''id'' | FieldData \<Rightarrow> ''data'')"

definition field_of_key :: "string \<Rightarrow> field option" where
  "field_of_key k =
     (case find (\<lambda>f. field_name f = k) [FieldTag, FieldID, FieldData] of
        Some f \<Rightarrow> Some f
      | None \<Rightarrow> find (\<lambda>f. field_name f = map lower k) [FieldTag, FieldID, FieldData])"

text \<open>
  While a text is decoded the field \<^verbatim>\<open>Data\<close> is a Go slice: the bytes it shows, and behind
  them the rest of its backing array, \<open>spare\<close>, which a later value for the same field can
  bring back into view. A nil slice has no backing array.
\<close>

record decoding = WorkerMessage +
  spare :: "byte list"

type_synonym decodeState = "decoding \<times> json_error option"

definition saveError :: "json_error \<Rightarrow> decodeState \<Rightarrow> decodeState" where
  "saveError e d = (case snd d of None \<Rightarrow> (fst d, Some e) | Some e0 \<Rightarrow> d)"

definition store_Tag :: "json \<Rightarrow> decodeState \<Rightarrow> decodeState" where
  "store_Tag v d =
     (case v of
        JNull \<Rightarrow> d
      | JString s \<Rightarrow> ((fst d)\<lparr>Tag := s\<rparr>, snd d)
      | _ \<Rightarrow> saveError (UnmarshalTypeError (value_name v)) d)"

definition store_ID :: "json \<Rightarrow> decodeState \<Rightarrow> decodeState" where
  "store_ID v d =
     (case v of
        JNull \<Rightarrow> d
      | JNumber lit \<Rightarrow>
          (case ParseUint lit 64 of
             Some n \<Rightarrow> ((fst d)\<lparr>ID := of_nat n\<rparr>, snd d)
           | None \<Rightarrow> saveError (UnmarshalTypeError (''number '' @ lit)) d)
      | _ \<Rightarrow> saveError (UnmarshalTypeError (value_name v)) d)"

text \<open>
  One element of an array for a \<^verbatim>\<open>[]byte\<close> is decoded into the byte the slice has at that
  index: a number from 0 to 255 replaces it, \<^verbatim>\<open>null\<close> and every value that is reported
  leave it as it is.
\<close>

definition store_uint8 :: "json \<Rightarrow> byte \<Rightarrow> byte \<times> json_error option" where
  "store_uint8 v old =
     (case v of
        JNull \<Rightarrow> (old, None)
      | JNumber lit \<Rightarrow>
          (case ParseUint lit 8 of
             Some n \<Rightarrow> (of_nat n, None)
           | None \<Rightarrow> (old, Some (UnmarshalTypeError (''number '' @ lit))))
      | _ \<Rightarrow> (old, Some (UnmarshalTypeError (value_name v))))"

text \<open>
  The array is decoded into the slice the field holds, element by element. \<open>acc\<close> are the
  elements already decoded and \<open>tail\<close> is the backing array from the current index on.
  When the backing array is used up (the index has reached the capacity \<open>length acc\<close>) a
  new one is made, of one and a half times the capacity and of 4 at least, the elements
  are copied and the rest of it is zero. After the last element the slice has the length
  of the array; an empty array gives a new empty slice. The errors of the elements are
  returned in their order.
\<close>

definition next_element :: "byte list \<Rightarrow> byte list \<Rightarrow> byte \<times> byte list" where
  "next_element acc tail =
     (case tail of
        old # rest \<Rightarrow> (old, rest)
      | [] \<Rightarrow> (0, replicate (max 4 (length acc + length acc div 2) - Suc (length acc)) 0))"

fun array :: "json list \<Rightarrow> byte list \<Rightarrow> byte list \<Rightarrow> byte list \<times> byte list \<times> json_error list" where
  "array [] acc tail = (acc, tail, [])"
| "array (v # vs) acc tail =
     (let (old, rest) = next_element acc tail;
          (b, err) = store_uint8 v old;
          (acc', tail', errs) = array vs (acc @ [b]) rest
      in (acc', tail', (case err of None \<Rightarrow> [] | Some e \<Rightarrow> [e]) @ errs))"

definition backing :: "decoding \<Rightarrow> byte list" where
  "backing m = (case Data m of None \<Rightarrow> [] | Some bs \<Rightarrow> bs) @ spare m"

text \<open>
  \<^verbatim>\<open>null\<close> makes the slice nil. A string is decoded from base64 into a new array of
  \<^verbatim>\<open>DecodedLen\<close> bytes, three for every four characters of the string, of which the slice
  shows the decoded ones. An array is decoded into the slice as it is.
\<close>

definition store_Data :: "json \<Rightarrow> decodeState \<Rightarrow> decodeState" where
  "store_Data v d =
     (case v of
        JNull \<Rightarrow> ((fst d)\<lparr>Data := None, spare := []\<rparr>, snd d)
      | JString s \<Rightarrow>
          (case DecodeString s of
             Some b \<Rightarrow> ((fst d)\<lparr>Data := Some b,
                                spare := replicate (length s div 4 * 3 - length b) 0\<rparr>, snd d)
           | None \<Rightarrow> saveError CorruptInputError d)
      | JArray vs \<Rightarrow>
          (let (acc, tail, errs) = array vs [] (backing (fst d));
               m = (if vs = [] then (fst d)\<lparr>Data := Some [], spare := []\<rparr>
                    else (fst d)\<lparr>Data := Some acc, spare := tail\<rparr>)
           in foldl (\<lambda>d' e. saveError e d') (m, snd d) errs)
      | _ \<Rightarrow> saveError (UnmarshalTypeError (value_name v)) d)"

fun object :: "(string \<times> json) list \<Rightarrow> decodeState \<Rightarrow> decodeState" where
  "object [] d = d"
| "object ((k, v) # ms) d =
     object ms
       (case field_of_key k of
          None \<Rightarrow> d
        | Some FieldTag \<Rightarrow> store_Tag v d
        | Some FieldID \<Rightarrow> store_ID v d
        | Some FieldData \<Rightarrow> store_Data v d)"

text \<open>
  \<^verbatim>\<open>var msg WorkerMessage\<close>: the zero value, into which receiveMessage decodes, and the
  message that is left when the text has been decoded.
\<close>

definition zero_message :: decoding where
  "zero_message = \<lparr>Tag = [], ID = 0, Data = None, spare = []\<rparr>"

definition message_of :: "decoding \<Rightarrow> WorkerMessage" where
  "message_of m = \<lparr>Tag = Tag m, ID = ID m, Data = Data m\<rparr>"

definition unmarshal_value :: "json \<Rightarrow> decodeState" where
  "unmarshal_value v =
     (case v of
        JObject ms \<Rightarrow> object ms (zero_message, None)
      | JNull \<Rightarrow> (zero_message, None)
      | _ \<Rightarrow> (zero_message, Some (UnmarshalTypeError (value_name v))))"

definition Unmarshal :: "string \<Rightarrow> json_error + WorkerMessage" where
  "Unmarshal data =
     (case parse_json data of
        None \<Rightarrow> Inl SyntaxError
      | Some v \<Rightarrow> (case unmarshal_value v of (m, None) \<Rightarrow> Inr (message_of m) | (m, Some e) \<Rightarrow> Inl e))"

text \<open>
  Marshal writes the fields in the order of the struct, under the names of their tags.
  None of the three types can make it fail, so it always returns a text.
\<close>

definition Marshal :: "WorkerMessage \<Rightarrow> json_error + string" where
  \<open>Marshal m =
     Inr (''{"tag":'' @ encode_string (Tag m) @
          '',"id":'' @ FormatUint (unat (ID m)) @
          '',"data":'' @
          (case Data m of None \<Rightarrow> ''null'' | Some b \<Rightarrow> CHR ''"'' # EncodeToString b @ [CHR ''"'']) @
          ''}'')\<close>

subsection \<open>Characters that need no escaping\<close>

text \<open>
  The characters a JSON string holds as they are, and the texts made of them that base64
  produces.
\<close>

definition plain :: "char \<Rightarrow> bool" where
  \<open>plain c = (0x20 \<le> code c \<and> code c < 0x80 \<and> c \<noteq> CHR ''"'' \<and> c \<noteq> CHR 0x5C)\<close>

definition b64_text :: "string \<Rightarrow> bool" where
  "b64_text s = list_all (\<lambda>c. plain c \<and> c \<noteq> CHR 0x0A \<and> c \<noteq> CHR 0x0D) s"

subsection \<open>Which objects decode\<close>

text \<open>
  The members of a JSON object that the decoder accepts: a member whose key names no field
  is skipped, and a value for a field is accepted when it is \<^verbatim>\<open>null\<close> or has the field's type.
\<close>

definition has_field :: "field \<Rightarrow> (string \<times> json) list \<Rightarrow> bool" where
  "has_field f ms = list_ex (\<lambda>m. field_of_key (fst m) = Some f) ms"

definition uint8_ok :: "json \<Rightarrow> bool" where
  "uint8_ok v = (case v of JNull \<Rightarrow> True | JNumber lit \<Rightarrow> ParseUint lit 8 \<noteq> None | _ \<Rightarrow> False)"

definition value_ok :: "field \<Rightarrow> json \<Rightarrow> bool" where
  "value_ok f v =
     (case f of
        FieldTag \<Rightarrow> (case v of JNull \<Rightarrow> True | JString s \<Rightarrow> True | _ \<Rightarrow> False)
      | FieldID \<Rightarrow> (case v of JNull \<Rightarrow> True | JNumber lit \<Rightarrow> ParseUint lit 64 \<noteq> None | _ \<Rightarrow> False)
      | FieldData \<Rightarrow>
          (case v of
             JNull \<Rightarrow> True
           | JString s \<Rightarrow> DecodeString s \<noteq> None
           | JArray vs \<Rightarrow> list_all uint8_ok vs
           | _ \<Rightarrow> False))"

definition member_ok :: "string \<times> json \<Rightarrow> bool" where
  "member_ok m = (case field_of_key (fst m) of None \<Rightarrow> True | Some f \<Rightarrow> value_ok f (snd m))"

definition store :: "field \<Rightarrow> json \<Rightarrow> decodeState \<Rightarrow> decodeState" where
  "store f v d = (case f of FieldTag \<Rightarrow> store_Tag v d | FieldID \<Rightarrow> store_ID v d | FieldData \<Rightarrow> store_Data v d)"

section \<open>Sending, receiving, connecting\<close>

text \<open>
  SendMessage. With a reception handler the message gets the ID that registering the
  handler returns; without one the ID is the zero value of \<^verbatim>\<open>var id uint64\<close>. The result
  is what the function leaves behind: \<open>Inr payload\<close> is the goroutine
  \<^verbatim>\<open>go wh.postMessage(string(payload))\<close>, started after the registration, and \<open>Inl err\<close> is
  \<^verbatim>\<open>jww.FATAL.Panicf\<close> on a marshalling error. The state returned is the state in which the
  goroutine is started.
\<close>

definition SendMessage ::
  "'h WorkerHandler \<Rightarrow> Tag \<Rightarrow> byte list option \<Rightarrow> 'h HandlerFn \<Rightarrow>
     (json_error + string) \<times> 'h WorkerHandler" where
  "SendMessage wh tag data receptionHandler =
     (let (idv, wh1) = (if receptionHandler \<noteq> NilFn
                        then RegisterHandler wh tag 0 True receptionHandler
                        else (0, wh));
          msg = \<lparr>Tag = tag, ID = idv, Data = data\<rparr>
      in (case Marshal msg of
            Inl err \<Rightarrow> (Inl err, wh1)
          | Inr payload \<Rightarrow> (Inr payload, wh1)))"

text \<open>
  receiveMessage returns the decoding error or the lookup error, or else starts
  \<^verbatim>\<open>go handler(msg.Data)\<close> and returns nil: \<open>Inr (handler, data)\<close> is that goroutine.
\<close>

datatype receive_error = DecodeError json_error | LookupError lookup_error

definition receiveMessage ::
  "Tag set \<Rightarrow> 'h WorkerHandler \<Rightarrow> string \<Rightarrow>
     (receive_error + 'h HandlerFn \<times> byte list option) \<times> 'h WorkerHandler" where
  "receiveMessage dar wh data =
     (case Unmarshal data of
        Inl err \<Rightarrow> (Inl (DecodeError err), wh)
      | Inr msg \<Rightarrow>
          (case getHandler dar wh (Tag msg) (ID msg) of
             (Inl err, wh1) \<Rightarrow> (Inl (LookupError err), wh1)
           | (Inr handler, wh1) \<Rightarrow> (Inr (handler, Data msg), wh1)))"

text \<open>
  \<^verbatim>\<open>workerInitialConnectionTimeout = 16 * time.Second\<close>, in nanoseconds as a
  \<^verbatim>\<open>time.Duration\<close> counts.
\<close>

definition workerInitialConnectionTimeout :: nat where
  "workerInitialConnectionTimeout = 16 * 1000000000"

text \<open>The error of NewWorkerHandler, with the name and the duration it formats.\<close>

datatype connect_error = TimedOut string nat

text \<open>
  The \<^verbatim>\<open>select\<close> of NewWorkerHandler waits for the handler registered for the ready tag to
  send on the channel, or for the timer. Time itself is not modelled: what the wait
  depends on is the list \<open>inbound\<close> of the messages that the message event listener
  hands to receiveMessage before the timer fires. The listener logs the error of
  receiveMessage and goes on. The wait ends with the first message whose handler is the
  ready closure; when the list ends without one the timer has fired.
\<close>

fun await_ready :: "Tag set \<Rightarrow> 'h WorkerHandler \<Rightarrow> string list \<Rightarrow> bool \<times> 'h WorkerHandler" where
  "await_ready dar wh [] = (False, wh)"
| "await_ready dar wh (data # rest) =
     (case receiveMessage dar wh data of
        (Inr (ReadyFn, d), wh1) \<Rightarrow> (True, wh1)
      | (_, wh1) \<Rightarrow> await_ready dar wh1 rest)"

text \<open>
  NewWorkerHandler. The constant \<^verbatim>\<open>ReadyTag\<close> is declared beside \<^verbatim>\<open>deleteAfterReceiving\<close>
  and is a parameter too. The first component is what the
  caller gets (\<open>Inl\<close>: a nil handle and the error); the second is the WorkerHandler the
  function built, which the event listeners it registered keep referring to whatever
  the caller gets.
\<close>

definition NewWorkerHandler ::
  "Tag set \<Rightarrow> Tag \<Rightarrow> string \<Rightarrow> string \<Rightarrow> string list \<Rightarrow>
     (connect_error + 'h WorkerHandler) \<times> 'h WorkerHandler" where
  "NewWorkerHandler dar ReadyTag aURL nm inbound =
     (let wh = new_handler nm;
          (_, wh1) = RegisterHandler wh ReadyTag InitID False ReadyFn;
          (ready, wh2) = await_ready dar wh1 inbound
      in if ready then (Inr wh2, wh2)
         else (Inl (TimedOut nm workerInitialConnectionTimeout), wh2))"

subsection \<open>Sequences of registry calls\<close>

text \<open>
  A caller's calls on one WorkerHandler, run in order. The log holds, for every
  registration with autoID, the tag and the ID it returned.
\<close>

datatype 'h call =
    CallRegisterHandler Tag uint64 bool "'h HandlerFn"
  | CallGetHandler Tag uint64

fun run_calls ::
  "Tag set \<Rightarrow> 'h WorkerHandler \<Rightarrow> 'h call list \<Rightarrow> (Tag \<times> uint64) list \<times> 'h WorkerHandler" where
  "run_calls dar wh [] = ([], wh)"
| "run_calls dar wh (CallRegisterHandler tag idv autoID handler # cs) =
     (let (i, wh1) = RegisterHandler wh tag idv autoID handler;
          (log, wh2) = run_calls dar wh1 cs
      in ((if autoID then [(tag, i)] else []) @ log, wh2))"
| "run_calls dar wh (CallGetHandler tag idv # cs) =
     run_calls dar (snd (getHandler dar wh tag idv)) cs"

definition auto_ids :: "Tag \<Rightarrow> (Tag \<times> uint64) list \<Rightarrow> uint64 list" where
  "auto_ids tag log = map snd (filter (\<lambda>p. fst p = tag) log)"

text \<open>The registrations with autoID for a tag among the calls.\<close>

definition is_auto_for :: "Tag \<Rightarrow> 'h call \<Rightarrow> bool" where
  "is_auto_for tag c =
     (case c of CallRegisterHandler t _ autoID _ \<Rightarrow> autoID \<and> t = tag | CallGetHandler _ _ \<Rightarrow> False)"

definition auto_count :: "Tag \<Rightarrow> 'h call list \<Rightarrow> nat" where
  "auto_count tag cs = length (filter (is_auto_for tag) cs)"

subsection \<open>States used as examples\<close>

definition wh0 :: "nat WorkerHandler" where
  "wh0 = \<lparr>handlers = [''t'' \<mapsto> [5 \<mapsto> Fn 1, 6 \<mapsto> Fn 2]], handlerIDs = [''t'' \<mapsto> 7], name = ''w''\<rparr>"

definition calls0 :: "nat call list" where
  "calls0 = [CallRegisterHandler ''t'' 0 True (Fn 3), CallGetHandler ''t'' 7,
             CallRegisterHandler ''u'' 0 True (Fn 4), CallRegisterHandler ''t'' 0 True (Fn 5)]"

section \<open>Properties of the registry\<close>

lemma getNextID_fst: "fst (getNextID wh tag) = next_id wh tag"
  by (simp add: getNextID_def next_id_def Let_def split: option.splits)

lemma getNextID_handlers: "handlers (snd (getNextID wh tag)) = handlers wh"
  by (simp add: getNextID_def Let_def)

lemma getNextID_handlerIDs:
  "handlerIDs (snd (getNextID wh tag)) = (handlerIDs wh)(tag \<mapsto> next_id wh tag + 1)"
  by (simp add: getNextID_def next_id_def Let_def split: option.splits)

lemma RegisterHandler_explicit:
  "RegisterHandler wh tag idv False h =
     (idv, wh\<lparr>handlers := (handlers wh)(tag \<mapsto>
              (case handlers wh tag of None \<Rightarrow> Map.empty | Some m \<Rightarrow> m)(idv \<mapsto> h))\<rparr>)"
  by (simp add: RegisterHandler_def)

lemma RegisterHandler_auto:
  "RegisterHandler wh tag idv True h =
     (next_id wh tag,
      wh\<lparr>handlerIDs := (handlerIDs wh)(tag \<mapsto> next_id wh tag + 1),
         handlers := (handlers wh)(tag \<mapsto>
              (case handlers wh tag of None \<Rightarrow> Map.empty | Some m \<Rightarrow> m)(next_id wh tag \<mapsto> h))\<rparr>)"
  by (simp add: RegisterHandler_def getNextID_def next_id_def Let_def split: option.splits)

lemma RegisterHandler_fst:
  "fst (RegisterHandler wh tag idv autoID h) = (if autoID then next_id wh tag else idv)"
  by (cases autoID) (simp_all add: RegisterHandler_auto RegisterHandler_explicit)

lemma RegisterHandler_handler_at:
  "handler_at (snd (RegisterHandler wh tag idv autoID h)) t i =
     (if t = tag \<and> i = fst (RegisterHandler wh tag idv autoID h) then Some h
      else handler_at wh t i)"
  by (cases autoID)
     (auto simp: RegisterHandler_auto RegisterHandler_explicit handler_at_def split: option.splits)

lemma RegisterHandler_next_id:
  "next_id (snd (RegisterHandler wh tag idv autoID h)) t =
     (if autoID \<and> t = tag then next_id wh tag + 1 else next_id wh t)"
  by (cases autoID)
     (auto simp: RegisterHandler_auto RegisterHandler_explicit next_id_def)

lemma RegisterHandler_name:
  "name (snd (RegisterHandler wh tag idv autoID h)) = name wh"
  by (cases autoID) (simp_all add: RegisterHandler_auto RegisterHandler_explicit)

lemma getHandler_handlerIDs: "handlerIDs (snd (getHandler dar wh tag idv)) = handlerIDs wh"
  by (simp add: getHandler_def Let_def split: option.splits)

lemma getHandler_next_id: "next_id (snd (getHandler dar wh tag idv)) t = next_id wh t"
  by (simp add: next_id_def getHandler_handlerIDs)

lemma getHandler_fst:
  "fst (getHandler dar wh tag idv) =
     (case handlers wh tag of
        None \<Rightarrow> Inl (NoHandlersForTag tag)
      | Some hs \<Rightarrow> (case hs idv of None \<Rightarrow> Inl (NoHandlerForID tag idv) | Some h \<Rightarrow> Inr h))"
  by (simp add: getHandler_def Let_def split: option.splits)

lemma getHandler_found:
  "(fst (getHandler dar wh tag idv) = Inr h) = (handler_at wh tag idv = Some h)"
  by (simp add: getHandler_fst handler_at_def split: option.splits)

lemma getHandler_error_state:
  "fst (getHandler dar wh tag idv) = Inl e \<Longrightarrow> snd (getHandler dar wh tag idv) = wh"
  by (auto simp: getHandler_def Let_def split: option.splits if_splits)

lemma getHandler_keep:
  "tag \<notin> dar \<Longrightarrow> snd (getHandler dar wh tag idv) = wh"
  by (auto simp: getHandler_def Let_def split: option.splits if_splits)

lemma getHandler_handler_at:
  "handler_at (snd (getHandler dar wh tag idv)) t i =
     (if tag \<in> dar \<and> t = tag \<and> i = idv then None else handler_at wh t i)"
proof (cases "handlers wh tag")
  case None
  then show ?thesis by (simp add: getHandler_def handler_at_def)
next
  case (Some hs)
  show ?thesis
  proof (cases "hs idv")
    case None
    with Some show ?thesis by (simp add: getHandler_def handler_at_def)
  next
    case (Some h)
    note hs = \<open>handlers wh tag = Some hs\<close>
    show ?thesis
    proof (cases "hs(idv := None) = Map.empty")
      case True
      then have "\<And>j. (hs(idv := None)) j = None" by simp
      then have "\<And>j. j \<noteq> idv \<Longrightarrow> hs j = None" by (metis fun_upd_other)
      with hs Some True show ?thesis
        by (auto simp: getHandler_def handler_at_def Let_def)
    next
      case False
      with hs Some show ?thesis
        by (simp add: getHandler_def handler_at_def Let_def)
    qed
  qed
qed

lemma wh0_simps:
  "handler_at wh0 ''t'' 5 = Some (Fn 1)" "handler_at wh0 ''t'' 6 = Some (Fn 2)" "next_id wh0 ''t'' = 7"
  "handler_at wh0 ''t'' 7 = None"
  by (simp_all add: wh0_def handler_at_def next_id_def)

text \<open>
  C5. RegisterHandler with an explicit ID returns that ID and stores the handler at the tag
  and ID, in place of whatever was stored there; every other entry and the counters stay as
  they were. With autoID the ID passed in plays no part: the call returns the tag's next ID
  (InitID for a tag that has no counter yet), moves the counter one up, and stores the
  handler under the ID it returned; every other entry and the other tags' counters stay.
\<close>

theorem RegisterHandler_spec:
  "fst (RegisterHandler wh tag idv False h) = idv
   \<and> handler_at (snd (RegisterHandler wh tag idv False h)) tag idv = Some h
   \<and> (\<forall>t i. (t, i) \<noteq> (tag, idv) \<longrightarrow>
          handler_at (snd (RegisterHandler wh tag idv False h)) t i = handler_at wh t i)
   \<and> handlerIDs (snd (RegisterHandler wh tag idv False h)) = handlerIDs wh
   \<and> fst (RegisterHandler wh tag idv True h) = next_id wh tag
   \<and> next_id (snd (RegisterHandler wh tag idv True h)) tag = next_id wh tag + 1
   \<and> (\<forall>t. t \<noteq> tag \<longrightarrow> next_id (snd (RegisterHandler wh tag idv True h)) t = next_id wh t)
   \<and> handler_at (snd (RegisterHandler wh tag idv True h)) tag (next_id wh tag) = Some h
   \<and> (\<forall>t i. (t, i) \<noteq> (tag, next_id wh tag) \<longrightarrow>
          handler_at (snd (RegisterHandler wh tag idv True h)) t i = handler_at wh t i)
   \<and> RegisterHandler wh tag idv True h = RegisterHandler wh tag idv' True h"
  by (simp add: RegisterHandler_handler_at RegisterHandler_next_id RegisterHandler_fst)
     (simp add: RegisterHandler_explicit RegisterHandler_auto)

theorem RegisterHandler_spec_witness:
  "handler_at wh0 ''t'' 5 = Some (Fn 1)
   \<and> fst (RegisterHandler wh0 ''t'' 5 False (Fn 3)) = 5
   \<and> handler_at (snd (RegisterHandler wh0 ''t'' 5 False (Fn 3))) ''t'' 5 = Some (Fn 3)
   \<and> handler_at (snd (RegisterHandler wh0 ''t'' 5 False (Fn 3))) ''t'' 6 = Some (Fn 2)
   \<and> fst (RegisterHandler wh0 ''t'' 5 True (Fn 3)) = 7
   \<and> next_id (snd (RegisterHandler wh0 ''t'' 5 True (Fn 3))) ''t'' = 8
   \<and> handler_at (snd (RegisterHandler wh0 ''t'' 5 True (Fn 3))) ''t'' 7 = Some (Fn 3)
   \<and> handler_at (snd (RegisterHandler wh0 ''t'' 5 True (Fn 3))) ''t'' 5 = Some (Fn 1)"
  using RegisterHandler_spec[of wh0 "''t''" 5 "Fn 3"]
  by (simp add: wh0_simps)

text \<open>
  C6. The lookup fails with the error of the tag exactly when the tag has no map of
  handlers, and with the error of the ID exactly when the tag has a map that holds nothing
  at the ID; it fails in no other way, and a failed lookup leaves the WorkerHandler as it
  was.
\<close>

theorem getHandler_errors:
  "(fst (getHandler dar wh tag idv) = Inl (NoHandlersForTag tag)) = (handlers wh tag = None)
   \<and> (fst (getHandler dar wh tag idv) = Inl (NoHandlerForID tag idv))
       = (\<exists>hs. handlers wh tag = Some hs \<and> hs idv = None)
   \<and> (\<forall>e. fst (getHandler dar wh tag idv) = Inl e \<longrightarrow>
          (e = NoHandlersForTag tag \<or> e = NoHandlerForID tag idv)
          \<and> snd (getHandler dar wh tag idv) = wh)"
  by (auto simp: getHandler_fst getHandler_error_state split: option.splits)

theorem getHandler_errors_witness:
  "handlers wh0 ''u'' = None
   \<and> getHandler {''t''} wh0 ''u'' 5 = (Inl (NoHandlersForTag ''u''), wh0)
   \<and> getHandler {''t''} wh0 ''t'' 9 = (Inl (NoHandlerForID ''t'' 9), wh0)"
  using getHandler_errors[of "{''t''}" wh0 "''u''" 5] getHandler_errors[of "{''t''}" wh0 "''t''" 9]
  by (simp add: wh0_def getHandler_def)

section \<open>Properties of sequences of calls\<close>

lemma auto_ids_simps:
  "auto_ids tag [] = []"
  "auto_ids tag ((t, i) # log) = (if t = tag then i # auto_ids tag log else auto_ids tag log)"
  "auto_ids tag (xs @ ys) = auto_ids tag xs @ auto_ids tag ys"
  by (simp_all add: auto_ids_def)

lemma ids_shift:
  "c # map (\<lambda>k. c + 1 + of_nat k) [0..<n] = map (\<lambda>k. (c :: uint64) + of_nat k) [0..<Suc n]"
  by (simp add: map_upt_Suc add.assoc del: upt_Suc)

lemma run_calls_auto_ids:
  "auto_ids tag (fst (run_calls dar wh cs))
     = map (\<lambda>k. next_id wh tag + of_nat k) [0..<auto_count tag cs]
   \<and> next_id (snd (run_calls dar wh cs)) tag = next_id wh tag + of_nat (auto_count tag cs)"
proof (induction cs arbitrary: wh)
  case Nil
  show ?case by (simp add: auto_ids_simps auto_count_def)
next
  case (Cons c cs)
  show ?case
  proof (cases c)
    case (CallGetHandler t i)
    with Cons[of "snd (getHandler dar wh t i)"] show ?thesis
      by (simp add: auto_count_def is_auto_for_def getHandler_next_id)
  next
    case (CallRegisterHandler t i a h)
    let ?wh1 = "snd (RegisterHandler wh t i a h)"
    have run: "run_calls dar wh (c # cs) =
        ((if a then [(t, fst (RegisterHandler wh t i a h))] else []) @ fst (run_calls dar ?wh1 cs),
         snd (run_calls dar ?wh1 cs))"
      by (simp add: CallRegisterHandler split: prod.splits)
    show ?thesis
    proof (cases "a \<and> t = tag")
      case True
      have cnt: "auto_count tag (c # cs) = Suc (auto_count tag cs)"
        using True CallRegisterHandler by (simp add: auto_count_def is_auto_for_def)
      have n1: "next_id (snd (RegisterHandler wh tag i True h)) tag = next_id wh tag + 1"
        by (simp add: RegisterHandler_next_id)
      have f1: "fst (RegisterHandler wh tag i True h) = next_id wh tag"
        by (simp add: RegisterHandler_fst)
      have "auto_ids tag (fst (run_calls dar wh (c # cs)))
            = next_id wh tag # map (\<lambda>k. next_id wh tag + 1 + of_nat k) [0..<auto_count tag cs]"
        using True Cons[of ?wh1] by (simp add: run auto_ids_simps f1 n1)
      also have "\<dots> = map (\<lambda>k. next_id wh tag + of_nat k) [0..<Suc (auto_count tag cs)]"
        by (rule ids_shift)
      finally have ids: "auto_ids tag (fst (run_calls dar wh (c # cs)))
            = map (\<lambda>k. next_id wh tag + of_nat k) [0..<auto_count tag (c # cs)]"
        by (simp only: cnt)
      have "next_id (snd (run_calls dar wh (c # cs))) tag
            = next_id wh tag + of_nat (auto_count tag (c # cs))"
        using True Cons[of ?wh1] by (simp add: run n1 cnt add.assoc add.commute)
      with ids show ?thesis by simp
    next
      case False
      have cnt: "auto_count tag (c # cs) = auto_count tag cs"
        using False CallRegisterHandler by (auto simp: auto_count_def is_auto_for_def)
      have n1: "next_id ?wh1 tag = next_id wh tag"
        using False by (auto simp: RegisterHandler_next_id)
      from False Cons[of ?wh1] show ?thesis
        by (auto simp: run auto_ids_simps n1 cnt)
    qed
  qed
qed

lemma sorted_wrt_less_distinct: "sorted_wrt (<) (xs :: 'a :: linorder list) \<Longrightarrow> distinct xs"
  by (induction xs) auto

lemma unat_add_of_nat:
  "unat (c :: uint64) + k < 2 ^ 64 \<Longrightarrow> unat (c + of_nat k) = unat c + k"
  by (simp add: unat_word_ariths unat_of_nat)

lemma sorted_ids:
  assumes "unat (c :: uint64) + n \<le> 2 ^ 64"
  shows "sorted_wrt (<) (map (\<lambda>k. c + of_nat k) [0..<n])"
proof -
  have "c + of_nat i < c + of_nat j" if "i < j" "j < n" for i j
  proof -
    from that assms have "unat c + i < 2 ^ 64" "unat c + j < 2 ^ 64" by simp_all
    then have "unat (c + of_nat i) = unat c + i" "unat (c + of_nat j) = unat c + j"
      by (simp_all add: unat_add_of_nat)
    with that show ?thesis by (simp add: word_less_nat_alt)
  qed
  then show ?thesis
    by (simp add: sorted_wrt_map sorted_wrt_iff_nth_less)
qed

text \<open>
  C2, as amended. Whatever registrations and lookups a sequence of calls holds, the IDs
  that its registrations with autoID return for one tag are strictly increasing, so none
  is returned twice, each lies between the counter before and the counter after, and the
  counter does not go down, as long as the counter of the tag does not wrap around: its
  value before the calls plus the number of these registrations stays below \<open>2 ^ 64\<close>.
  Lookups that remove handlers change nothing in this.
\<close>

theorem auto_ids_increasing:
  assumes "unat (next_id wh tag) + auto_count tag cs < 2 ^ 64"
  shows "sorted_wrt (<) (auto_ids tag (fst (run_calls dar wh cs)))
         \<and> distinct (auto_ids tag (fst (run_calls dar wh cs)))
         \<and> list_all (\<lambda>i. next_id wh tag \<le> i \<and> i < next_id (snd (run_calls dar wh cs)) tag)
              (auto_ids tag (fst (run_calls dar wh cs)))
         \<and> next_id wh tag \<le> next_id (snd (run_calls dar wh cs)) tag"
proof -
  let ?c = "next_id wh tag" and ?n = "auto_count tag cs"
  let ?ids = "auto_ids tag (fst (run_calls dar wh cs))"
  from run_calls_auto_ids[of tag dar wh cs]
  have ids: "?ids = map (\<lambda>k. ?c + of_nat k) [0..<?n]"
    and nxt: "next_id (snd (run_calls dar wh cs)) tag = ?c + of_nat ?n" by simp_all
  from assms have le: "unat ?c + ?n \<le> 2 ^ 64" by simp
  have s: "sorted_wrt (<) ?ids" unfolding ids by (rule sorted_ids[OF le])
  then have d: "distinct ?ids" by (rule sorted_wrt_less_distinct)
  have un: "unat (?c + of_nat ?n) = unat ?c + ?n" using assms by (simp add: unat_add_of_nat)
  have b: "?c \<le> ?c + of_nat k \<and> ?c + of_nat k < ?c + of_nat ?n" if "k < ?n" for k
  proof -
    from that assms have "unat ?c + k < 2 ^ 64" by simp
    then have "unat (?c + of_nat k) = unat ?c + k" by (simp add: unat_add_of_nat)
    with un that show ?thesis by (simp add: word_less_nat_alt word_le_nat_alt)
  qed
  have l: "list_all (\<lambda>i. ?c \<le> i \<and> i < next_id (snd (run_calls dar wh cs)) tag) ?ids"
    unfolding ids nxt by (simp add: list_all_iff b)
  have "?c \<le> ?c + of_nat ?n" using un by (simp add: word_le_nat_alt)
  with s d l nxt show ?thesis by simp
qed

lemma calls0_ids: "auto_ids ''t'' (fst (run_calls {''t''} wh0 calls0)) = [7, 8]"
  by (simp add: calls0_def auto_ids_simps RegisterHandler_auto wh0_def next_id_def InitID_def
        getHandler_def Let_def)

theorem auto_ids_increasing_witness:
  "unat (next_id wh0 ''t'') + auto_count ''t'' calls0 < 2 ^ 64
   \<and> auto_ids ''t'' (fst (run_calls {''t''} wh0 calls0)) = [7, 8]
   \<and> sorted_wrt (<) (auto_ids ''t'' (fst (run_calls {''t''} wh0 calls0)))
   \<and> distinct (auto_ids ''t'' (fst (run_calls {''t''} wh0 calls0)))"
proof -
  have h: "unat (next_id wh0 ''t'') + auto_count ''t'' calls0 < 2 ^ 64"
    by (simp add: wh0_simps auto_count_def is_auto_for_def calls0_def)
  from auto_ids_increasing[OF h, of "{''t''}"] h calls0_ids show ?thesis by simp
qed

lemma auto_count_replicate:
  "auto_count tag (replicate n (CallRegisterHandler tag i True h)) = n"
  by (simp add: auto_count_def is_auto_for_def)

lemma wrapped_ids_not_sorted:
  assumes "n = 2 ^ 64"
  shows "\<not> sorted_wrt (<)
           (auto_ids tag (fst (run_calls dar (new_handler nm)
              (replicate (Suc n) (CallRegisterHandler tag 0 True h)))))"
proof -
  let ?ids = "auto_ids tag (fst (run_calls dar (new_handler nm)
              (replicate (Suc n) (CallRegisterHandler tag 0 True h))))"
  have nx: "next_id (new_handler nm) tag = 0"
    by (simp add: new_handler_def next_id_def InitID_def)
  from run_calls_auto_ids[of tag dar "new_handler nm" "replicate (Suc n) (CallRegisterHandler tag 0 True h)"]
  have ids: "?ids = map (\<lambda>k. of_nat k) [0..<Suc n]"
    by (simp add: auto_count_replicate nx del: replicate_Suc upt_Suc)
  have len: "length ?ids = Suc n" unfolding ids by simp
  have a: "?ids ! 0 = 0" unfolding ids by (simp del: upt_Suc add: nth_map_upt)
  have "?ids ! n = (of_nat n :: uint64)" unfolding ids
    by (simp del: upt_Suc add: nth_map_upt)
  also have "\<dots> = 0" unfolding assms by simp
  finally have b: "?ids ! n = 0" .
  have "0 < n" using assms by simp
  show ?thesis
  proof
    assume "sorted_wrt (<) ?ids"
    then have "?ids ! 0 < ?ids ! n"
      using \<open>0 < n\<close> len by (simp add: sorted_wrt_iff_nth_less del: replicate_Suc)
    with a b show False by simp
  qed
qed

text \<open>
  C2 as stated fails at the wrap-around of the uint64 counter: of \<open>2 ^ 64 + 1\<close>
  registrations with autoID for one tag on a new WorkerHandler, the last returns 0, the ID
  the first returned.
\<close>

theorem auto_ids_wrap_counterexample:
  "\<not> sorted_wrt (<)
       (auto_ids ''t'' (fst (run_calls {} (new_handler ''w'' :: unit WorkerHandler)
          (replicate (Suc (2 ^ 64)) (CallRegisterHandler ''t'' 0 True NilFn)))))"
  by (rule wrapped_ids_not_sorted[OF refl])

section \<open>Properties of sending and receiving\<close>

text \<open>Concrete messages are decoded by rewriting with the definitions of the decoder.\<close>

lemma replicate_numeral: "replicate (numeral k) x = x # replicate (pred_numeral k) x"
  by (simp add: numeral_eq_Suc)

lemmas json_eval =
  Unmarshal_def parse_json_def unmarshal_value_def zero_message_def
  store_Tag_def store_ID_def store_Data_def store_uint8_def saveError_def
  next_element_def backing_def message_of_def replicate_numeral
  field_of_key_def field_name_def lower_def value_name_def
  step_def begin_value_def begin_string_def deliver_def push_def maxNestingDepth_def
  cons_token_def is_space_def is_digit_def in_range_def
  scan_number_def scan_sign_def scan_int_def scan_frac_def scan_exp_def scan_exp_sign_def digits1_def
  ParseUint_def DecodeString_def b64_val_def
  prepend_def simple_escape_def IsSurrogate_def surrogate_pair_def hex_val_def EncodeRune_def
  rune_len.simps Let_def

lemma receiveMessage_decoded:
  "Unmarshal data = Inr msg \<Longrightarrow>
   receiveMessage dar wh data =
     (case fst (getHandler dar wh (Tag msg) (ID msg)) of
        Inl e \<Rightarrow> Inl (LookupError e)
      | Inr h \<Rightarrow> Inr (h, Data msg),
      snd (getHandler dar wh (Tag msg) (ID msg)))"
  by (simp add: receiveMessage_def split: prod.splits sum.splits)

lemma receiveMessage_undecoded:
  "Unmarshal data = Inl e \<Longrightarrow> receiveMessage dar wh data = (Inl (DecodeError e), wh)"
  by (simp add: receiveMessage_def)

lemma getHandler_missing:
  "handler_at wh tag idv = None \<Longrightarrow>
   \<exists>e. getHandler dar wh tag idv = (Inl e, wh) \<and> (e = NoHandlersForTag tag \<or> e = NoHandlerForID tag idv)"
  by (auto simp: getHandler_def handler_at_def split: option.splits)

text \<open>
  C3. Let a message decode to a tag and ID at which a handler is registered. When the tag
  is in deleteAfterReceiving, receiveMessage starts the handler on the message's data and
  the handler is gone from the state it leaves; the same message received again in that
  state fails with one of the two lookup errors and starts nothing. When the tag is not
  in deleteAfterReceiving, receiveMessage starts the handler and leaves the state as it
  was, so the handler stays for every later message.
\<close>

theorem one_shot_removal:
  assumes "Unmarshal data = Inr msg" and "handler_at wh (Tag msg) (ID msg) = Some h"
  shows "(Tag msg \<in> dar \<longrightarrow>
            (\<exists>wh1 e. receiveMessage dar wh data = (Inr (h, Data msg), wh1)
                \<and> handler_at wh1 (Tag msg) (ID msg) = None
                \<and> receiveMessage dar wh1 data = (Inl (LookupError e), wh1)
                \<and> (e = NoHandlersForTag (Tag msg) \<or> e = NoHandlerForID (Tag msg) (ID msg))))
         \<and> (Tag msg \<notin> dar \<longrightarrow>
               receiveMessage dar wh data = (Inr (h, Data msg), wh))"
proof (intro conjI impI)
  assume d: "Tag msg \<in> dar"
  let ?wh1 = "snd (getHandler dar wh (Tag msg) (ID msg))"
  from assms(2) have f: "fst (getHandler dar wh (Tag msg) (ID msg)) = Inr h"
    by (simp add: getHandler_found)
  have r1: "receiveMessage dar wh data = (Inr (h, Data msg), ?wh1)"
    by (simp add: receiveMessage_decoded[OF assms(1)] f)
  have gone: "handler_at ?wh1 (Tag msg) (ID msg) = None"
    using d by (simp add: getHandler_handler_at)
  from getHandler_missing[OF gone, of dar] obtain e where
    e: "getHandler dar ?wh1 (Tag msg) (ID msg) = (Inl e, ?wh1)"
       "e = NoHandlersForTag (Tag msg) \<or> e = NoHandlerForID (Tag msg) (ID msg)" by blast
  have r2: "receiveMessage dar ?wh1 data = (Inl (LookupError e), ?wh1)"
    by (simp add: receiveMessage_decoded[OF assms(1)] e)
  from r1 gone r2 e(2)
  show "\<exists>wh1 e. receiveMessage dar wh data = (Inr (h, Data msg), wh1)
          \<and> handler_at wh1 (Tag msg) (ID msg) = None
          \<and> receiveMessage dar wh1 data = (Inl (LookupError e), wh1)
          \<and> (e = NoHandlersForTag (Tag msg) \<or> e = NoHandlerForID (Tag msg) (ID msg))"
    by blast
next
  assume d: "Tag msg \<notin> dar"
  from assms(2) have f: "fst (getHandler dar wh (Tag msg) (ID msg)) = Inr h"
    by (simp add: getHandler_found)
  show "receiveMessage dar wh data = (Inr (h, Data msg), wh)"
    by (simp add: receiveMessage_decoded[OF assms(1)] f getHandler_keep[OF d])
qed

lemma frame_t5: \<open>Unmarshal ''{"tag":"t","id":5,"data":"aGk="}'' = Inr \<lparr>Tag = ''t'', ID = 5, Data = Some [104, 105]\<rparr>\<close>
  by (simp add: json_eval)

theorem one_shot_removal_witness:
  \<open>handler_at wh0 ''t'' 5 = Some (Fn 1)
   \<and> fst (receiveMessage {''t''} wh0 ''{"tag":"t","id":5,"data":"aGk="}'')
       = Inr (Fn 1, Some [104, 105])
   \<and> fst (receiveMessage {''t''}
            (snd (receiveMessage {''t''} wh0 ''{"tag":"t","id":5,"data":"aGk="}''))
            ''{"tag":"t","id":5,"data":"aGk="}'')
       = Inl (LookupError (NoHandlerForID ''t'' 5))
   \<and> receiveMessage {''u''} wh0 ''{"tag":"t","id":5,"data":"aGk="}''
       = (Inr (Fn 1, Some [104, 105]), wh0)\<close>
  using one_shot_removal[OF frame_t5, of wh0 "Fn 1" "{''t''}"]
        one_shot_removal[OF frame_t5, of wh0 "Fn 1" "{''u''}"]
  by (simp add: receiveMessage_decoded[OF frame_t5] getHandler_def wh0_def handler_at_def)

lemma receiveMessage_other_handler:
  assumes "receiveMessage dar wh data = (r, wh1)"
    and "handler_at wh T I = Some ReadyFn"
    and "\<forall>d. r \<noteq> Inr (ReadyFn, d)"
  shows "handler_at wh1 T I = Some ReadyFn"
proof (cases "Unmarshal data")
  case (Inl e)
  with assms show ?thesis by (simp add: receiveMessage_undecoded)
next
  case (Inr msg)
  note rd = receiveMessage_decoded[OF Inr, of dar wh]
  show ?thesis
  proof (cases "fst (getHandler dar wh (Tag msg) (ID msg))")
    case (Inl e)
    from getHandler_error_state[OF Inl] rd assms(1,2) show ?thesis by simp
  next
    case (Inr h)
    with rd assms(1) have r: "r = Inr (h, Data msg)"
      and w: "wh1 = snd (getHandler dar wh (Tag msg) (ID msg))" by simp_all
    from r assms(3) have "h \<noteq> ReadyFn" by blast
    moreover from Inr have "handler_at wh (Tag msg) (ID msg) = Some h"
      by (simp add: getHandler_found)
    ultimately have "\<not> (T = Tag msg \<and> I = ID msg)" using assms(2) by auto
    with w assms(2) show ?thesis by (auto simp: getHandler_handler_at)
  qed
qed

lemma await_ready_timeout_keeps:
  "await_ready dar wh inbound = (False, wh2) \<Longrightarrow> handler_at wh T I = Some ReadyFn
   \<Longrightarrow> handler_at wh2 T I = Some ReadyFn"
proof (induction inbound arbitrary: wh)
  case Nil
  then show ?case by simp
next
  case (Cons data rest)
  obtain r wh1 where rm: "receiveMessage dar wh data = (r, wh1)" by (cases "receiveMessage dar wh data")
  show ?case
  proof (cases "\<exists>d. r = Inr (ReadyFn, d)")
    case True
    with rm Cons.prems(1) show ?thesis by auto
  next
    case False
    then have nr: "\<forall>d. r \<noteq> Inr (ReadyFn, d)" by blast
    from rm False Cons.prems(1) have "await_ready dar wh1 rest = (False, wh2)"
      by (auto split: sum.splits HandlerFn.splits prod.splits)
    moreover from receiveMessage_other_handler[OF rm Cons.prems(2) nr]
    have "handler_at wh1 T I = Some ReadyFn" .
    ultimately show ?thesis by (rule Cons.IH)
  qed
qed

lemma await_ready_no_ready_tag:
  assumes "\<forall>data\<in>set inbound. \<forall>msg. Unmarshal data = Inr msg \<longrightarrow> Tag msg \<noteq> T"
    and "\<forall>t. t \<noteq> T \<longrightarrow> handlers wh t = None"
  shows "await_ready dar wh inbound = (False, wh)"
  using assms
proof (induction inbound)
  case Nil
  then show ?case by simp
next
  case (Cons data rest)
  have "\<exists>e. receiveMessage dar wh data = (Inl e, wh)"
  proof (cases "Unmarshal data")
    case (Inl e)
    then show ?thesis by (simp add: receiveMessage_undecoded)
  next
    case (Inr msg)
    with Cons.prems have "handlers wh (Tag msg) = None" by simp
    then show ?thesis
      by (simp add: receiveMessage_decoded[OF Inr] getHandler_def)
  qed
  then obtain e where "receiveMessage dar wh data = (Inl e, wh)" by blast
  with Cons show ?case by simp
qed

text \<open>
  C7, as amended. When none of the messages that arrive before the timer fires carries
  the ready tag, NewWorkerHandler returns no handle and the time-out error, which names
  the worker and the 16 seconds. The caller so has no WorkerHandler through which a handler
  could be used again; the WorkerHandler that was built is left exactly as the
  registration of the ready handler made it, with that handler still stored at the ready
  tag and InitID.
\<close>

theorem connection_timeout:
  assumes "\<forall>data\<in>set inbound. \<forall>msg. Unmarshal data = Inr msg \<longrightarrow> Tag msg \<noteq> ReadyTag"
  shows "\<exists>wh2. NewWorkerHandler dar ReadyTag aURL nm inbound
                 = (Inl (TimedOut nm workerInitialConnectionTimeout), wh2)
           \<and> workerInitialConnectionTimeout = 16 * 1000000000
           \<and> handler_at wh2 ReadyTag InitID = Some ReadyFn
           \<and> wh2 = snd (RegisterHandler (new_handler nm) ReadyTag InitID False ReadyFn)"
proof -
  let ?wh1 = "snd (RegisterHandler (new_handler nm) ReadyTag InitID False ReadyFn) :: 'a WorkerHandler"
  have "\<forall>t. t \<noteq> ReadyTag \<longrightarrow> handlers ?wh1 t = None"
    by (simp add: RegisterHandler_explicit new_handler_def)
  from await_ready_no_ready_tag[OF assms this]
  have "await_ready dar ?wh1 inbound = (False, ?wh1)" .
  then have "NewWorkerHandler dar ReadyTag aURL nm inbound
     = (Inl (TimedOut nm workerInitialConnectionTimeout), ?wh1)"
    by (simp add: NewWorkerHandler_def Let_def case_prod_beta)
  moreover have "handler_at ?wh1 ReadyTag InitID = Some ReadyFn"
    by (simp add: RegisterHandler_handler_at RegisterHandler_fst)
  ultimately show ?thesis by (simp add: workerInitialConnectionTimeout_def)
qed

lemma frame_other: \<open>Unmarshal ''{"tag":"other","id":0,"data":null}'' = Inr \<lparr>Tag = ''other'', ID = 0, Data = None\<rparr>\<close>
  by (simp add: json_eval)

lemma frame_bad: \<open>Unmarshal ''not json'' = Inl SyntaxError\<close>
  by (simp add: json_eval)

theorem connection_timeout_witness:
  \<open>fst (NewWorkerHandler {''Ready''} ''Ready'' ''worker.js'' ''w''
           [''{"tag":"other","id":0,"data":null}'', ''not json''] :: (connect_error + unit WorkerHandler) \<times> unit WorkerHandler)
     = Inl (TimedOut ''w'' 16000000000)
   \<and> handler_at (snd (NewWorkerHandler {''Ready''} ''Ready'' ''worker.js'' ''w''
           [''{"tag":"other","id":0,"data":null}'', ''not json''] :: (connect_error + unit WorkerHandler) \<times> unit WorkerHandler))
        ''Ready'' InitID = Some ReadyFn\<close>
proof -
  let ?inbound = \<open>[''{"tag":"other","id":0,"data":null}'', ''not json'']\<close>
  have h: "\<forall>data\<in>set ?inbound. \<forall>msg. Unmarshal data = Inr msg \<longrightarrow> Tag msg \<noteq> ''Ready''"
    by (auto simp: frame_other frame_bad)
  from connection_timeout[OF h, of "{''Ready''}" "''worker.js''" "''w''"]
  obtain wh2 :: "unit WorkerHandler" where
    "NewWorkerHandler {''Ready''} ''Ready'' ''worker.js'' ''w'' ?inbound
       = (Inl (TimedOut ''w'' workerInitialConnectionTimeout), wh2)"
    "handler_at wh2 ''Ready'' InitID = Some ReadyFn"
    by blast
  then show ?thesis by (simp add: workerInitialConnectionTimeout_def)
qed

text \<open>
  C7 as stated fails where it says that the ready handler is no longer in the registry
  after the time-out: with no message at all, the constructor times out and the handler is
  still stored at the ready tag and InitID.
\<close>

theorem timeout_handler_remains_counterexample:
  "\<not> (fst (NewWorkerHandler {''Ready''} ''Ready'' ''worker.js'' ''w'' []
            :: (connect_error + unit WorkerHandler) \<times> unit WorkerHandler)
        = Inl (TimedOut ''w'' workerInitialConnectionTimeout)
      \<longrightarrow> handler_at (snd (NewWorkerHandler {''Ready''} ''Ready'' ''worker.js'' ''w'' []
            :: (connect_error + unit WorkerHandler) \<times> unit WorkerHandler)) ''Ready'' InitID = None)"
  by (simp add: NewWorkerHandler_def RegisterHandler_explicit new_handler_def handler_at_def Let_def)

lemma SendMessage_handler:
  "h \<noteq> NilFn \<Longrightarrow>
   SendMessage wh tag data h =
     (Marshal \<lparr>Tag = tag, ID = next_id wh tag, Data = data\<rparr>, snd (RegisterHandler wh tag 0 True h))"
  by (simp add: SendMessage_def RegisterHandler_auto Marshal_def Let_def)

lemma SendMessage_nil:
  "SendMessage wh tag data NilFn = (Marshal \<lparr>Tag = tag, ID = 0, Data = data\<rparr>, wh)"
  by (simp add: SendMessage_def Marshal_def Let_def)

lemma Marshal_Inr: "\<exists>payload. Marshal m = Inr payload"
  by (simp add: Marshal_def)

text \<open>
  C4, as amended. SendMessage with a reception handler that is not nil first registers the
  handler under the tag's next ID and then starts the goroutine that posts the message;
  the message posted is the encoding of the tag, that same ID and the data. In the state
  in which the goroutine is started the handler is stored at the tag and that ID, so a
  reply that decodes to the tag and the ID is dispatched to the handler. The handler is
  removed by the first reply exactly when the tag is in deleteAfterReceiving; for any
  other tag it stays registered.
\<close>

theorem SendMessage_registers_first:
  assumes "h \<noteq> NilFn"
  shows "\<exists>payload wh1.
           SendMessage wh tag data h = (Inr payload, wh1)
         \<and> Marshal \<lparr>Tag = tag, ID = next_id wh tag, Data = data\<rparr> = Inr payload
         \<and> wh1 = snd (RegisterHandler wh tag 0 True h)
         \<and> handler_at wh1 tag (next_id wh tag) = Some h
         \<and> (\<forall>reply d. Unmarshal reply = Inr \<lparr>Tag = tag, ID = next_id wh tag, Data = d\<rparr>
               \<longrightarrow> fst (receiveMessage dar wh1 reply) = Inr (h, d))
         \<and> ((handler_at (snd (getHandler dar wh1 tag (next_id wh tag))) tag (next_id wh tag) = None)
              = (tag \<in> dar))"
proof -
  let ?wh1 = "snd (RegisterHandler wh tag 0 True h)"
  obtain payload where p: "Marshal \<lparr>Tag = tag, ID = next_id wh tag, Data = data\<rparr> = Inr payload"
    using Marshal_Inr by blast
  have s: "SendMessage wh tag data h = (Inr payload, ?wh1)"
    using SendMessage_handler[OF assms] p by simp
  have at: "handler_at ?wh1 tag (next_id wh tag) = Some h"
    by (simp add: RegisterHandler_handler_at RegisterHandler_fst)
  have r: "fst (receiveMessage dar ?wh1 reply) = Inr (h, d)"
    if "Unmarshal reply = Inr \<lparr>Tag = tag, ID = next_id wh tag, Data = d\<rparr>" for reply d
  proof -
    from at have "fst (getHandler dar ?wh1 tag (next_id wh tag)) = Inr h"
      by (simp add: getHandler_found)
    then show ?thesis by (simp add: receiveMessage_decoded[OF that])
  qed
  have o: "(handler_at (snd (getHandler dar ?wh1 tag (next_id wh tag))) tag (next_id wh tag) = None)
            = (tag \<in> dar)"
    using at by (simp add: getHandler_handler_at)
  show ?thesis
    by (rule exI[of _ payload], rule exI[of _ ?wh1]) (use s p at r o in simp)
qed

lemma frame_echo: \<open>Unmarshal ''{"tag":"echo","id":0,"data":"aGk="}'' = Inr \<lparr>Tag = ''echo'', ID = 0, Data = Some [104, 105]\<rparr>\<close>
  by (simp add: json_eval)

lemma send_echo:
  "snd (SendMessage (new_handler ''w'') ''echo'' (Some [104, 105]) (Fn ()))
     = \<lparr>handlers = [''echo'' \<mapsto> [0 \<mapsto> Fn ()]], handlerIDs = [''echo'' \<mapsto> 1], name = ''w''\<rparr>"
  by (simp add: SendMessage_handler RegisterHandler_auto new_handler_def next_id_def InitID_def)

theorem SendMessage_registers_first_witness:
  \<open>handler_at (snd (SendMessage (new_handler ''w'') ''echo'' (Some [104, 105]) (Fn ()))) ''echo'' 0
     = Some (Fn ())
   \<and> fst (receiveMessage {''echo''}
           (snd (SendMessage (new_handler ''w'') ''echo'' (Some [104, 105]) (Fn ())))
           ''{"tag":"echo","id":0,"data":"aGk="}'')
       = Inr (Fn (), Some [104, 105])\<close>
proof -
  have n: "next_id (new_handler ''w'' :: unit WorkerHandler) ''echo'' = 0"
    by (simp add: new_handler_def next_id_def InitID_def)
  have "Fn () \<noteq> NilFn" by simp
  from SendMessage_registers_first[OF this, of "new_handler ''w''" "''echo''" "Some [104, 105]" "{''echo''}"]
  obtain payload wh1 where
    "SendMessage (new_handler ''w'') ''echo'' (Some [104, 105]) (Fn ()) = (Inr payload, wh1)"
    "handler_at wh1 ''echo'' 0 = Some (Fn ())"
    "\<forall>reply d. Unmarshal reply = Inr \<lparr>Tag = ''echo'', ID = 0, Data = d\<rparr>
        \<longrightarrow> fst (receiveMessage {''echo''} wh1 reply) = Inr (Fn (), d)"
    unfolding n by blast
  with frame_echo show ?thesis by simp
qed

text \<open>
  C4 as stated fails where it calls the registered handler one-shot: for a tag outside
  deleteAfterReceiving the same reply, delivered a second time, starts the handler again.
\<close>

theorem reply_handler_not_one_shot_counterexample:
  \<open>fst (receiveMessage {''Ready''}
          (snd (receiveMessage {''Ready''}
                  (snd (SendMessage (new_handler ''w'') ''echo'' (Some [104, 105]) (Fn ())))
                  ''{"tag":"echo","id":0,"data":"aGk="}''))
          ''{"tag":"echo","id":0,"data":"aGk="}'')
     = Inr (Fn (), Some [104, 105])\<close>
  by (simp add: send_echo receiveMessage_decoded[OF frame_echo] getHandler_def)

text \<open>
  C10. For a tag whose counter has not been used, the first ID that a registration with
  autoID returns is InitID, which is 0. So the first SendMessage with a reception handler
  posts the same message as a SendMessage without one, and stores its handler at the tag
  and InitID: a handler registered there with an explicit ID is replaced by it.
\<close>

theorem first_auto_id_is_InitID:
  assumes "handlerIDs wh tag = None" and "h \<noteq> NilFn"
  shows "InitID = 0
       \<and> fst (RegisterHandler wh tag idv True h) = InitID
       \<and> fst (SendMessage wh tag data h) = Marshal \<lparr>Tag = tag, ID = InitID, Data = data\<rparr>
       \<and> fst (SendMessage wh tag data NilFn) = Marshal \<lparr>Tag = tag, ID = InitID, Data = data\<rparr>
       \<and> handler_at (snd (SendMessage wh tag data h)) tag InitID = Some h
       \<and> handler_at (snd (RegisterHandler wh tag InitID False h0)) tag InitID = Some h0
       \<and> handler_at (snd (SendMessage (snd (RegisterHandler wh tag InitID False h0)) tag data h))
            tag InitID = Some h"
proof -
  from assms(1) have n: "next_id wh tag = InitID" by (simp add: next_id_def)
  have n': "next_id (snd (RegisterHandler wh tag InitID False h0)) tag = InitID"
    using n by (simp add: RegisterHandler_next_id)
  show ?thesis
    using n n' assms(2)
    by (simp add: SendMessage_handler SendMessage_nil RegisterHandler_fst
          RegisterHandler_handler_at InitID_def)
qed

theorem first_auto_id_is_InitID_witness:
  "handler_at (snd (RegisterHandler (new_handler ''w'') ''Ready'' InitID False ReadyFn)) ''Ready'' InitID
     = Some (ReadyFn :: unit HandlerFn)
   \<and> handler_at (snd (SendMessage (snd (RegisterHandler (new_handler ''w'') ''Ready'' InitID False ReadyFn))
                        ''Ready'' None (Fn ()))) ''Ready'' InitID
     = Some (Fn ())
   \<and> fst (SendMessage (new_handler ''w'' :: unit WorkerHandler) ''Ready'' None (Fn ()))
     = fst (SendMessage (new_handler ''w'' :: unit WorkerHandler) ''Ready'' None NilFn)"
proof -
  have a: "handlerIDs (new_handler ''w'' :: unit WorkerHandler) ''Ready'' = None"
    by (simp add: new_handler_def)
  have b: "Fn () \<noteq> NilFn" by simp
  from first_auto_id_is_InitID[OF a b, of 0 None ReadyFn] show ?thesis
    by (simp add: InitID_def)
qed

section \<open>Properties of decoding\<close>

lemma saveError_snd [simp]: "snd (saveError e d) \<noteq> None"
  by (simp add: saveError_def split: option.splits)

lemma saveError_fst [simp]: "fst (saveError e d) = fst d"
  by (simp add: saveError_def split: option.splits)

lemma saveError_Some: "snd d = Some e0 \<Longrightarrow> saveError e d = d"
  by (simp add: saveError_def)

lemma store_uint8_ok: "(snd (store_uint8 v old) = None) = uint8_ok v"
  by (cases v) (auto simp: store_uint8_def uint8_ok_def split: option.splits)

lemma array_errors: "(snd (snd (array vs acc tail)) = []) = list_all uint8_ok vs"
proof (induction vs arbitrary: acc tail)
  case Nil
  show ?case by simp
next
  case (Cons v vs)
  show ?case
  proof (cases "snd (store_uint8 v (fst (next_element acc tail)))")
    case None
    with store_uint8_ok[of v "fst (next_element acc tail)"] show ?thesis
      by (simp add: Cons case_prod_beta)
  next
    case (Some e)
    with store_uint8_ok[of v "fst (next_element acc tail)"] show ?thesis
      by (simp add: Cons case_prod_beta)
  qed
qed

lemma saveErrors_snd:
  "(snd (foldl (\<lambda>d' e. saveError e d') d errs) = None) = (snd d = None \<and> errs = [])"
  by (induction errs arbitrary: d) auto

lemma saveErrors_fst: "fst (foldl (\<lambda>d' e. saveError e d') d errs) = fst d"
  by (induction errs arbitrary: d) auto

lemma store_ok: "(snd (store f v d) = None) = (snd d = None \<and> value_ok f v)"
  by (cases f; cases v)
     (auto simp: store_def store_Tag_def store_ID_def store_Data_def value_ok_def
                 case_prod_beta saveErrors_snd array_errors
           split: option.splits)

lemma object_step:
  "object (m # ms) d = object ms (case field_of_key (fst m) of None \<Rightarrow> d | Some f \<Rightarrow> store f (snd m) d)"
  by (cases m) (simp add: store_def split: option.splits field.splits)

lemma member_ok_Cons:
  "list_all member_ok (m # ms) =
     ((case field_of_key (fst m) of None \<Rightarrow> True | Some f \<Rightarrow> value_ok f (snd m))
      \<and> list_all member_ok ms)"
  by (simp add: member_ok_def)

lemma object_ok: "(snd (object ms d) = None) = (snd d = None \<and> list_all member_ok ms)"
proof (induction ms arbitrary: d)
  case Nil
  show ?case by simp
next
  case (Cons m ms)
  show ?case
    unfolding object_step Cons member_ok_Cons
    by (auto simp: store_ok split: option.splits)
qed

lemma store_other_Tag: "f \<noteq> FieldTag \<Longrightarrow> Tag (fst (store f v d)) = Tag (fst d)"
  by (cases f; cases v)
     (auto simp: store_def store_ID_def store_Data_def case_prod_beta saveErrors_fst
           split: option.splits)

lemma store_other_ID: "f \<noteq> FieldID \<Longrightarrow> ID (fst (store f v d)) = ID (fst d)"
  by (cases f; cases v)
     (auto simp: store_def store_Tag_def store_Data_def case_prod_beta saveErrors_fst
           split: option.splits)

lemma store_other_Data: "f \<noteq> FieldData \<Longrightarrow> Data (fst (store f v d)) = Data (fst d)"
  by (cases f; cases v)
     (auto simp: store_def store_Tag_def store_ID_def split: option.splits)

lemma object_absent:
  "(\<not> has_field FieldTag ms \<longrightarrow> Tag (fst (object ms d)) = Tag (fst d))
   \<and> (\<not> has_field FieldID ms \<longrightarrow> ID (fst (object ms d)) = ID (fst d))
   \<and> (\<not> has_field FieldData ms \<longrightarrow> Data (fst (object ms d)) = Data (fst d))"
proof (induction ms arbitrary: d)
  case Nil
  show ?case by simp
next
  case (Cons m ms)
  show ?case
    unfolding object_step
    by (auto simp: Cons has_field_def store_other_Tag store_other_ID store_other_Data
             split: option.splits)
qed

lemma Unmarshal_object:
  "parse_json data = Some (JObject ms) \<Longrightarrow>
   Unmarshal data = (case snd (object ms (zero_message, None)) of
                       None \<Rightarrow> Inr (message_of (fst (object ms (zero_message, None))))
                     | Some e \<Rightarrow> Inl e)"
  by (simp add: Unmarshal_def unmarshal_value_def split: prod.splits option.splits)

text \<open>
  C8, as amended. A message that fails to decode makes receiveMessage return the decoding
  error, start no handler and leave the WorkerHandler as it was; a text that is not JSON
  fails so. For a message that is a JSON object, decoding fails exactly when a member
  whose key names one of the three fields holds a value the field cannot take. A field
  whose key is absent is no failure: in the decoded message the tag is then empty, the ID
  0 and the data nil. Every message that decodes, with or without absent fields, is
  dispatched: when a handler is registered at its tag and ID, receiveMessage starts that
  handler on the data of the message, and when none is, it returns a lookup error and
  leaves the WorkerHandler as it was.
\<close>

theorem absent_fields_decode:
  "(Unmarshal data = Inl e \<longrightarrow> receiveMessage dar wh data = (Inl (DecodeError e), wh))
   \<and> (parse_json data = None \<longrightarrow> Unmarshal data = Inl SyntaxError)
   \<and> (parse_json data = Some (JObject ms) \<longrightarrow>
        ((\<exists>msg. Unmarshal data = Inr msg) = list_all member_ok ms)
        \<and> (\<forall>msg. Unmarshal data = Inr msg \<longrightarrow>
              (\<not> has_field FieldTag ms \<longrightarrow> Tag msg = [])
              \<and> (\<not> has_field FieldID ms \<longrightarrow> ID msg = 0)
              \<and> (\<not> has_field FieldData ms \<longrightarrow> Data msg = None)))
   \<and> (\<forall>msg h. Unmarshal data = Inr msg \<longrightarrow> handler_at wh (Tag msg) (ID msg) = Some h \<longrightarrow>
          fst (receiveMessage dar wh data) = Inr (h, Data msg))
   \<and> (\<forall>msg. Unmarshal data = Inr msg \<longrightarrow> handler_at wh (Tag msg) (ID msg) = None \<longrightarrow>
          (\<exists>err. receiveMessage dar wh data = (Inl (LookupError err), wh)))"
proof (intro conjI impI allI)
  assume "Unmarshal data = Inl e"
  then show "receiveMessage dar wh data = (Inl (DecodeError e), wh)"
    by (rule receiveMessage_undecoded)
next
  assume "parse_json data = None"
  then show "Unmarshal data = Inl SyntaxError" by (simp add: Unmarshal_def)
next
  assume p: "parse_json data = Some (JObject ms)"
  show "(\<exists>msg. Unmarshal data = Inr msg) = list_all member_ok ms"
    using object_ok[of ms "(zero_message, None)"]
    by (auto simp: Unmarshal_object[OF p] split: option.splits)
next
  fix msg
  assume p: "parse_json data = Some (JObject ms)" and u: "Unmarshal data = Inr msg"
  from u have m: "msg = message_of (fst (object ms (zero_message, None)))"
    by (auto simp: Unmarshal_object[OF p] split: option.splits)
  {
    assume "\<not> has_field FieldTag ms"
    then show "Tag msg = []"
      using object_absent[of ms "(zero_message, None)"]
      by (simp add: m message_of_def zero_message_def)
  next
    assume "\<not> has_field FieldID ms"
    then show "ID msg = 0"
      using object_absent[of ms "(zero_message, None)"]
      by (simp add: m message_of_def zero_message_def)
  next
    assume "\<not> has_field FieldData ms"
    then show "Data msg = None"
      using object_absent[of ms "(zero_message, None)"]
      by (simp add: m message_of_def zero_message_def)
  }
next
  fix msg h
  assume u: "Unmarshal data = Inr msg" and h: "handler_at wh (Tag msg) (ID msg) = Some h"
  from h have "fst (getHandler dar wh (Tag msg) (ID msg)) = Inr h"
    by (simp add: getHandler_found)
  then show "fst (receiveMessage dar wh data) = Inr (h, Data msg)"
    by (simp add: receiveMessage_decoded[OF u])
next
  fix msg
  assume u: "Unmarshal data = Inr msg" and h: "handler_at wh (Tag msg) (ID msg) = None"
  from getHandler_missing[OF h, of dar] obtain err
    where "getHandler dar wh (Tag msg) (ID msg) = (Inl err, wh)" by blast
  then have "receiveMessage dar wh data = (Inl (LookupError err), wh)"
    by (simp add: receiveMessage_decoded[OF u])
  then show "\<exists>err. receiveMessage dar wh data = (Inl (LookupError err), wh)" ..
qed

lemma parse_ready_no_data:
  \<open>parse_json ''{"tag":"Ready","id":0}'' = Some (JObject [(''tag'', JString ''Ready''), (''id'', JNumber ''0'')])\<close>
  by (simp add: json_eval)

lemma frame_ready_no_data:
  \<open>Unmarshal ''{"tag":"Ready","id":0}'' = Inr \<lparr>Tag = ''Ready'', ID = 0, Data = None\<rparr>\<close>
  by (simp add: json_eval)

lemma frame_tag_number: \<open>Unmarshal ''{"tag":5}'' = Inl (UnmarshalTypeError ''number'')\<close>
  by (simp add: json_eval)

lemma frame_t_no_data:
  \<open>Unmarshal ''{"tag":"t","id":5}'' = Inr \<lparr>Tag = ''t'', ID = 5, Data = None\<rparr>\<close>
  by (simp add: json_eval)

theorem absent_fields_decode_witness:
  \<open>parse_json ''{"tag":"Ready","id":0}''
      = Some (JObject [(''tag'', JString ''Ready''), (''id'', JNumber ''0'')])
   \<and> \<not> has_field FieldData [(''tag'', JString ''Ready''), (''id'', JNumber ''0'')]
   \<and> list_all member_ok [(''tag'', JString ''Ready''), (''id'', JNumber ''0'')]
   \<and> Unmarshal ''{"tag":"Ready","id":0}'' = Inr \<lparr>Tag = ''Ready'', ID = 0, Data = None\<rparr>
   \<and> receiveMessage {''Ready''} wh0 ''{"tag":5}''
        = (Inl (DecodeError (UnmarshalTypeError ''number'')), wh0)
   \<and> Unmarshal ''{"tag":"t","id":5}'' = Inr \<lparr>Tag = ''t'', ID = 5, Data = None\<rparr>
   \<and> handler_at wh0 ''t'' 5 = Some (Fn 1)
   \<and> fst (receiveMessage {''Ready''} wh0 ''{"tag":"t","id":5}'') = Inr (Fn 1, None)
   \<and> handler_at wh0 ''Ready'' 0 = None
   \<and> (\<exists>err. receiveMessage {''Ready''} wh0 ''{"tag":"Ready","id":0}''
               = (Inl (LookupError err), wh0))\<close>
proof -
  have n: "handler_at wh0 ''Ready'' 0 = None"
    by (simp add: wh0_def handler_at_def)
  show ?thesis
    using absent_fields_decode[of \<open>''{"tag":"Ready","id":0}''\<close> SyntaxError "{''Ready''}" wh0
            "[(''tag'', JString ''Ready''), (''id'', JNumber ''0'')]"]
          absent_fields_decode[of \<open>''{"tag":5}''\<close> "UnmarshalTypeError ''number''" "{''Ready''}" wh0 "[]"]
          absent_fields_decode[of \<open>''{"tag":"t","id":5}''\<close> SyntaxError "{''Ready''}" wh0 "[]"]
    by (simp add: parse_ready_no_data frame_ready_no_data frame_tag_number frame_t_no_data
          wh0_simps n has_field_def field_of_key_def field_name_def lower_def in_range_def)
qed

text \<open>
  Two members for the data. The array of the second is decoded into the slice the first
  has left: its \<^verbatim>\<open>null\<close> elements keep the bytes that are there, also those that a shorter
  array in between has cut off, and beyond the backing array they are zero.
\<close>

lemma later_array_keeps_elements:
  \<open>Unmarshal ''{"data":[1,2,3],"data":[null,null]}'' = Inr \<lparr>Tag = [], ID = 0, Data = Some [1, 2]\<rparr>\<close>
  \<open>Unmarshal ''{"data":[1,2,3],"data":[9],"data":[null,null]}''
     = Inr \<lparr>Tag = [], ID = 0, Data = Some [9, 2]\<rparr>\<close>
  \<open>Unmarshal ''{"data":"AQID","data":[null,7]}'' = Inr \<lparr>Tag = [], ID = 0, Data = Some [1, 7]\<rparr>\<close>
  \<open>Unmarshal ''{"data":[1,2],"data":null,"data":[null]}'' = Inr \<lparr>Tag = [], ID = 0, Data = Some [0]\<rparr>\<close>
  \<open>Unmarshal ''{"data":[1,256,"x"]}'' = Inl (UnmarshalTypeError ''number 256'')\<close>
  by (simp_all add: json_eval)

text \<open>
  C8 as stated fails for a message without the data field: it decodes, with nil data, and
  the handler registered at its tag and ID is started.
\<close>

theorem absent_data_counterexample:
  \<open>fst (receiveMessage {''Ready''}
          (snd (RegisterHandler (new_handler ''w'' :: unit WorkerHandler) ''Ready'' InitID False ReadyFn))
          ''{"tag":"Ready","id":0}'')
     = Inr (ReadyFn, None)\<close>
  by (simp add: receiveMessage_def frame_ready_no_data getHandler_def RegisterHandler_explicit
        new_handler_def InitID_def)

section \<open>Decoding what was encoded\<close>

subsection \<open>Numbers\<close>

lemma digit_char_code: "d < 10 \<Longrightarrow> code (digit_char d) = 0x30 + d"
  by (simp add: digit_char_def)

lemma digit_char_is_digit: "d < 10 \<Longrightarrow> is_digit (digit_char d)"
  by (simp add: is_digit_def in_range_def digit_char_code)

lemma char_eqI: "code a = code b \<Longrightarrow> a = b"
  by (metis char_of_char)

lemma digit_char_0: "digit_char 0 = CHR ''0''"
  by (rule char_eqI) (simp add: digit_char_code)

lemma FormatUint_small: "n < 10 \<Longrightarrow> FormatUint n = [digit_char n]"
  by (subst FormatUint.simps) simp

lemma FormatUint_large: "\<not> n < 10 \<Longrightarrow> FormatUint n = FormatUint (n div 10) @ [digit_char (n mod 10)]"
  by (subst FormatUint.simps) simp

lemma FormatUint_ne: "FormatUint n \<noteq> []"
  by (cases "n < 10") (simp_all add: FormatUint_small FormatUint_large)

lemma FormatUint_digits: "list_all is_digit (FormatUint n)"
proof (induction n rule: FormatUint.induct)
  case (1 n)
  show ?case
  proof (cases "n < 10")
    case True
    then show ?thesis by (simp add: FormatUint_small digit_char_is_digit)
  next
    case False
    with 1 show ?thesis by (simp add: FormatUint_large digit_char_is_digit)
  qed
qed

lemma FormatUint_value: "foldl (\<lambda>a c. a * 10 + (code c - 0x30)) 0 (FormatUint n) = n"
proof (induction n rule: FormatUint.induct)
  case (1 n)
  show ?case
  proof (cases "n < 10")
    case True
    then show ?thesis by (simp add: FormatUint_small digit_char_code)
  next
    case False
    with 1 show ?thesis by (simp add: FormatUint_large digit_char_code)
  qed
qed

lemma ParseUint_FormatUint: "n < 2 ^ 64 \<Longrightarrow> ParseUint (FormatUint n) 64 = Some n"
  by (simp add: ParseUint_def FormatUint_ne FormatUint_digits FormatUint_value Let_def)

lemma FormatUint_hd_nonzero: "0 < n \<Longrightarrow> hd (FormatUint n) \<noteq> CHR ''0''"
proof (induction n rule: FormatUint.induct)
  case (1 n)
  show ?case
  proof (cases "n < 10")
    case True
    have "code (digit_char n) \<noteq> code (CHR ''0'')"
      using True "1.prems" by (simp add: digit_char_code)
    then show ?thesis using True by (auto simp: FormatUint_small)
  next
    case False
    then have "0 < n div 10" by simp
    with 1 False show ?thesis by (simp add: FormatUint_large FormatUint_ne)
  qed
qed

lemma is_digit_not_other:
  "is_digit d \<Longrightarrow> \<not> is_space d \<and> d \<noteq> CHR ''-'' \<and> d \<noteq> CHR ''{'' \<and> d \<noteq> CHR ''}'' \<and> d \<noteq> CHR ''[''
     \<and> d \<noteq> CHR '']'' \<and> d \<noteq> CHR '':'' \<and> d \<noteq> CHR '','' \<and> d \<noteq> CHR 0x22"
  by (auto simp: is_digit_def in_range_def is_space_def)

lemma takeWhile_digits:
  "list_all is_digit ds \<Longrightarrow> \<not> is_digit c \<Longrightarrow>
   takeWhile is_digit (ds @ c # rest) = ds \<and> dropWhile is_digit (ds @ c # rest) = c # rest"
  by (induction ds) auto

lemma scan_number_FormatUint:
  assumes "\<not> is_digit c" and "c \<noteq> CHR ''.''" and "c \<noteq> CHR ''e''" and "c \<noteq> CHR ''E''"
  shows "scan_number (FormatUint n @ c # rest) = Some (FormatUint n, c # rest)"
proof -
  obtain d ds where f: "FormatUint n = d # ds" using FormatUint_ne[of n] by (cases "FormatUint n") auto
  with FormatUint_digits[of n] have d: "is_digit d" and ds: "list_all is_digit ds" by simp_all
  from d have nm: "d \<noteq> CHR ''-''" using is_digit_not_other by blast
  have sg: "scan_sign (FormatUint n @ c # rest) = ([], FormatUint n @ c # rest)"
    using nm by (simp add: scan_sign_def f)
  have si: "scan_int (FormatUint n @ c # rest) = Some (FormatUint n, c # rest)"
  proof (cases "n = 0")
    case True
    then show ?thesis by (simp add: FormatUint_small digit_char_0 scan_int_def)
  next
    case False
    then have "d \<noteq> CHR ''0''" using FormatUint_hd_nonzero[of n] f by simp
    moreover have "digits1 (FormatUint n @ c # rest) = Some (FormatUint n, c # rest)"
      using takeWhile_digits[OF FormatUint_digits assms(1), of n rest] FormatUint_ne[of n]
      by (simp add: digits1_def)
    ultimately show ?thesis by (simp add: scan_int_def f)
  qed
  have sf: "scan_frac (c # rest) = Some ([], c # rest)"
    using assms(2) by (simp add: scan_frac_def)
  have se: "scan_exp (c # rest) = Some ([], c # rest)"
    using assms(3,4) by (simp add: scan_exp_def)
  show ?thesis by (simp add: scan_number_def sg si sf se)
qed

lemma lex_FormatUint:
  "lex (FormatUint n @ CHR '','' # rest)
     = cons_token (TNumber (FormatUint n)) (lex (CHR '','' # rest))"
proof -
  obtain d ds where f: "FormatUint n = d # ds" using FormatUint_ne[of n] by (cases "FormatUint n") auto
  with FormatUint_digits[of n] have d: "is_digit d" by simp
  have sc: "scan_number (d # ds @ CHR '','' # rest) = Some (d # ds, CHR '','' # rest)"
    using scan_number_FormatUint[of "CHR '',''" n rest]
    by (simp add: f is_digit_def in_range_def)
  show ?thesis
    using is_digit_not_other[OF d] d by (simp add: f sc)
qed

lemma b64_table:
  "\<forall>k\<in>set [0..<64]. b64_val (b64_char k) = Some k \<and> plain (b64_char k) \<and> b64_char k \<noteq> CHR ''=''"
  by code_simp

lemma b64_char_props:
  "k < 64 \<Longrightarrow> b64_val (b64_char k) = Some k \<and> plain (b64_char k) \<and> b64_char k \<noteq> CHR ''=''"
  using b64_table by (simp del: upt_rec_numeral)

subsection \<open>Base64\<close>

lemma byte_of_nat_eq: "n mod 256 = unat (b :: byte) \<Longrightarrow> of_nat n = b"
  by (simp add: word_unat_eq_iff unat_of_nat)

lemma unat_byte_less: "unat (b :: byte) < 256"
  using unsigned_less[of b] by simp

lemma sextets:
  fixes n :: nat
  shows "n div 262144 * 64 + n div 4096 mod 64 = n div 4096"
    and "n div 4096 * 64 + n div 64 mod 64 = n div 64"
    and "n div 64 * 64 + n mod 64 = n"
proof -
  have a: "n div 262144 = n div 4096 div 64" by (simp add: div_mult2_eq[symmetric])
  have b: "n div 4096 = n div 64 div 64" by (simp add: div_mult2_eq[symmetric])
  show "n div 262144 * 64 + n div 4096 mod 64 = n div 4096" unfolding a by simp
  show "n div 4096 * 64 + n div 64 mod 64 = n div 64" unfolding b by simp
  show "n div 64 * 64 + n mod 64 = n" by simp
qed

lemma pack3:
  fixes a b c :: nat
  assumes "a < 256" "b < 256" "c < 256"
  shows "(a * 65536 + b * 256 + c) div 65536 mod 256 = a"
    and "(a * 65536 + b * 256 + c) div 256 mod 256 = b"
    and "(a * 65536 + b * 256 + c) mod 256 = c"
    and "(a * 65536 + b * 256 + c) div 262144 < 64"
proof -
  have e: "a * 65536 + b * 256 + c = c + (a * 256 + b) * 256" by simp
  have d: "(a * 65536 + b * 256 + c) div 256 = a * 256 + b"
    unfolding e using assms(3) by (simp only: div_mult_self1; simp)
  show "(a * 65536 + b * 256 + c) div 65536 mod 256 = a" using assms by simp
  show "(a * 65536 + b * 256 + c) div 256 mod 256 = b" unfolding d using assms by simp
  show "(a * 65536 + b * 256 + c) mod 256 = c"
    unfolding e using assms(3) by (simp only: mod_mult_self1; simp)
  show "(a * 65536 + b * 256 + c) div 262144 < 64" using assms by simp
qed

lemma pack2:
  fixes a b :: nat
  assumes "a < 256" "b < 256"
  shows "(a * 1024 + b * 4) div 1024 mod 256 = a"
    and "(a * 1024 + b * 4) div 4 mod 256 = b"
    and "(a * 65536 + b * 256) div 262144 < 64"
  using assms by simp_all

lemma pack1:
  fixes a :: nat
  assumes "a < 256"
  shows "a * 65536 div 262144 < 64"
  using assms by simp

lemma plain_filter: "plain c \<Longrightarrow> c \<noteq> CHR 0x0A \<and> c \<noteq> CHR 0x0D"
  by (auto simp: plain_def)

lemma pad_plain: "plain (CHR ''='')"
  by (simp add: plain_def)

lemma EncodeToString_text: "b64_text (EncodeToString bs)"
proof (induction bs rule: EncodeToString.induct)
  case 1
  show ?case by (simp add: b64_text_def)
next
  case (2 a)
  from pack1[OF unat_byte_less[of a]] show ?case
    using pad_plain by (simp add: b64_text_def Let_def b64_char_props plain_filter)
next
  case (3 a b)
  from pack2(3)[OF unat_byte_less[of a] unat_byte_less[of b]] show ?case
    using pad_plain by (simp add: b64_text_def Let_def b64_char_props plain_filter)
next
  case (4 a b c rest)
  from pack3(4)[OF unat_byte_less[of a] unat_byte_less[of b] unat_byte_less[of c]] "4.IH"[OF refl]
  show ?case
    by (simp add: b64_text_def Let_def b64_char_props plain_filter)
qed

lemma quantum1:
  assumes "b64_val x = Some va" "b64_val y = Some vb" "m = va * 64 + vb"
  shows "decode_quanta [x, y, CHR ''='', CHR ''=''] = Some [of_nat (m div 16)]"
  using assms by simp

lemma quantum2:
  assumes "b64_val x = Some va" "b64_val y = Some vb" "b64_val z = Some vc" "z \<noteq> CHR ''=''"
    "m = (va * 64 + vb) * 64 + vc"
  shows "decode_quanta [x, y, z, CHR ''=''] = Some [of_nat (m div 1024), of_nat (m div 4)]"
  using assms by simp

lemma quantum3:
  assumes "b64_val x = Some va" "b64_val y = Some vb" "b64_val z = Some vc" "b64_val w = Some vd"
    "z \<noteq> CHR ''=''" "w \<noteq> CHR ''=''" "m = ((va * 64 + vb) * 64 + vc) * 64 + vd"
    "decode_quanta rest = Some bs"
  shows "decode_quanta (x # y # z # w # rest)
           = Some (of_nat (m div 65536) # of_nat (m div 256) # of_nat m # bs)"
  using assms by (simp add: Let_def)

lemma decode_quanta_Encode: "decode_quanta (EncodeToString bs) = Some bs"
proof (induction bs rule: EncodeToString.induct)
  case 1
  show ?case by simp
next
  case (2 a)
  define n where "n = unat a * 65536"
  have lt: "n div 262144 < 64" unfolding n_def by (rule pack1[OF unat_byte_less])
  have lt2: "n div 4096 mod 64 < 64" by simp
  have m: "unat a * 16 = n div 262144 * 64 + n div 4096 mod 64"
    unfolding sextets by (simp add: n_def)
  have v: "(of_nat (unat a * 16 div 16) :: byte) = a" by simp
  have "decode_quanta [b64_char (n div 262144), b64_char (n div 4096 mod 64), CHR ''='', CHR ''='']
          = Some [a]"
    using quantum1[OF conjunct1[OF b64_char_props[OF lt]] conjunct1[OF b64_char_props[OF lt2]] m]
    unfolding v .
  then show ?case unfolding EncodeToString.simps Let_def n_def[symmetric] .
next
  case (3 a b)
  define n where "n = unat a * 65536 + unat b * 256"
  note ua = unat_byte_less[of a] and ub = unat_byte_less[of b]
  have lt: "n div 262144 < 64" unfolding n_def by (rule pack2(3)[OF ua ub])
  have lt2: "n div 4096 mod 64 < 64" and lt3: "n div 64 mod 64 < 64" by simp_all
  have m: "unat a * 1024 + unat b * 4
             = (n div 262144 * 64 + n div 4096 mod 64) * 64 + n div 64 mod 64"
    unfolding sextets by (simp add: n_def)
  have va: "(of_nat ((unat a * 1024 + unat b * 4) div 1024) :: byte) = a"
    by (rule byte_of_nat_eq) (rule pack2(1)[OF ua ub])
  have vb: "(of_nat ((unat a * 1024 + unat b * 4) div 4) :: byte) = b"
    by (rule byte_of_nat_eq) (rule pack2(2)[OF ua ub])
  have "decode_quanta [b64_char (n div 262144), b64_char (n div 4096 mod 64),
                       b64_char (n div 64 mod 64), CHR ''='']
          = Some [a, b]"
    using quantum2[OF conjunct1[OF b64_char_props[OF lt]] conjunct1[OF b64_char_props[OF lt2]]
          conjunct1[OF b64_char_props[OF lt3]] conjunct2[OF conjunct2[OF b64_char_props[OF lt3]]] m]
    unfolding va vb .
  then show ?case unfolding EncodeToString.simps Let_def n_def[symmetric] .
next
  case (4 a b c rest)
  define n where "n = unat a * 65536 + unat b * 256 + unat c"
  note ua = unat_byte_less[of a] and ub = unat_byte_less[of b] and uc = unat_byte_less[of c]
  have lt: "n div 262144 < 64" unfolding n_def by (rule pack3(4)[OF ua ub uc])
  have lt2: "n div 4096 mod 64 < 64" and lt3: "n div 64 mod 64 < 64" and lt4: "n mod 64 < 64"
    by simp_all
  have m: "n = ((n div 262144 * 64 + n div 4096 mod 64) * 64 + n div 64 mod 64) * 64 + n mod 64"
    unfolding sextets by simp
  have va: "(of_nat (n div 65536) :: byte) = a"
    unfolding n_def by (rule byte_of_nat_eq) (rule pack3(1)[OF ua ub uc])
  have vb: "(of_nat (n div 256) :: byte) = b"
    unfolding n_def by (rule byte_of_nat_eq) (rule pack3(2)[OF ua ub uc])
  have vc: "(of_nat n :: byte) = c"
    unfolding n_def by (rule byte_of_nat_eq) (rule pack3(3)[OF ua ub uc])
  have "decode_quanta (b64_char (n div 262144) # b64_char (n div 4096 mod 64)
                       # b64_char (n div 64 mod 64) # b64_char (n mod 64) # EncodeToString rest)
          = Some (a # b # c # rest)"
    using quantum3[OF conjunct1[OF b64_char_props[OF lt]] conjunct1[OF b64_char_props[OF lt2]]
          conjunct1[OF b64_char_props[OF lt3]] conjunct1[OF b64_char_props[OF lt4]]
          conjunct2[OF conjunct2[OF b64_char_props[OF lt3]]]
          conjunct2[OF conjunct2[OF b64_char_props[OF lt4]]] m "4.IH"[OF refl]]
    unfolding va vb vc .
  then show ?case unfolding EncodeToString.simps Let_def n_def[symmetric] append_Cons append_Nil .
qed

lemma DecodeString_EncodeToString: "DecodeString (EncodeToString bs) = Some bs"
proof -
  have "filter (\<lambda>c. c \<noteq> CHR 0x0A \<and> c \<noteq> CHR 0x0D) (EncodeToString bs) = EncodeToString bs"
    using EncodeToString_text[of bs] by (simp add: b64_text_def list_all_iff)
  then show ?thesis by (simp add: DecodeString_def decode_quanta_Encode)
qed

subsection \<open>Strings\<close>

lemma high_not_special:
  \<open>0x80 \<le> code c \<Longrightarrow> c \<noteq> CHR ''"'' \<and> c \<noteq> CHR 0x5C\<close>
  by auto

lemma unquote_ascii:
  \<open>c \<noteq> CHR ''"'' \<Longrightarrow> c \<noteq> CHR 0x5C \<Longrightarrow> 0x20 \<le> code c \<Longrightarrow> code c < 0x80
   \<Longrightarrow> unquote (c # X) = prepend [c] (unquote X)\<close>
  by simp

lemma unquote_simple:
  \<open>simple_escape e = Some x \<Longrightarrow> e \<noteq> CHR ''u''
   \<Longrightarrow> unquote (CHR 0x5C # e # X) = prepend [x] (unquote X)\<close>
  by simp

lemma unquote_u:
  \<open>getu4 es = Some rr \<Longrightarrow> \<not> IsSurrogate rr
   \<Longrightarrow> unquote (CHR 0x5C # CHR ''u'' # es) = prepend (EncodeRune rr) (unquote (drop 4 es))\<close>
  by simp

lemma unquote_raw:
  assumes "0x80 \<le> code c" and "rune_len (c # cs) = n" and "n \<noteq> 0"
  shows "unquote (c # cs) = prepend (take n (c # cs)) (unquote (drop (n - 1) cs))"
proof -
  from assms(1) have "\<not> code c < 0x20" "\<not> code c < 0x80" by simp_all
  with high_not_special[OF assms(1)] assms(2,3) show ?thesis
    by (simp add: Let_def del: take_Suc_Cons)
qed

lemma unquote_plain:
  \<open>list_all plain s \<Longrightarrow> unquote (s @ CHR ''"'' # rest) = Some (s, rest)\<close>
proof (induction s)
  case Nil
  show ?case by simp
next
  case (Cons c s)
  then have "c \<noteq> CHR 0x22" "c \<noteq> CHR 0x5C" "0x20 \<le> code c" "code c < 0x80"
    by (simp_all add: plain_def)
  from unquote_ascii[OF this] Cons show ?case by (simp add: prepend_def)
qed

lemma unquote_EncodeToString:
  \<open>unquote (EncodeToString bs @ CHR ''"'' # rest) = Some (EncodeToString bs, rest)\<close>
  using EncodeToString_text[of bs]
  by (intro unquote_plain) (simp add: b64_text_def list_all_iff)

lemma hex_table: "\<forall>k\<in>set [0..<16]. hex_val (hex_digit k) = Some k"
  by code_simp

lemma hex_digit_val: "k < 16 \<Longrightarrow> hex_val (hex_digit k) = Some k"
  using hex_table by (simp del: upt_rec_numeral)

lemma hex_val_0: "hex_val (CHR ''0'') = Some 0"
  by (simp add: hex_val_def in_range_def)

lemma EncodeRune_ascii: "code c < 0x80 \<Longrightarrow> EncodeRune (code c) = [c]"
  by (simp add: EncodeRune_def)

lemma getu4_escape:
  "code c < 0x80 \<Longrightarrow>
   getu4 (CHR ''0'' # CHR ''0'' # hex_digit (code c div 16) # hex_digit (code c mod 16) # X)
     = Some (code c)"
  by (simp add: hex_val_0 hex_digit_val)

lemma simple_escapes:
  \<open>simple_escape (CHR ''"'') = Some (CHR ''"'')\<close>
  \<open>simple_escape (CHR 0x5C) = Some (CHR 0x5C)\<close>
  \<open>simple_escape (CHR ''n'') = Some (CHR 0x0A)\<close>
  \<open>simple_escape (CHR ''r'') = Some (CHR 0x0D)\<close>
  \<open>simple_escape (CHR ''t'') = Some (CHR 0x09)\<close>
  by (simp_all add: simple_escape_def)

lemma unquote_escape_ascii:
  assumes "code c < 0x80"
  shows "unquote (escape_ascii c @ X) = prepend [c] (unquote X)"
proof -
  consider (safe) "html_safe c"
    | (bs) "c = CHR 0x5C" | (dq) "c = CHR 0x22" | (nl) "c = CHR 0x0A" | (cr) "c = CHR 0x0D"
    | (tab) "c = CHR 0x09"
    | (other) "\<not> html_safe c" "c \<noteq> CHR 0x5C" "c \<noteq> CHR 0x22" "c \<noteq> CHR 0x0A" "c \<noteq> CHR 0x0D"
        "c \<noteq> CHR 0x09"
    by blast
  then show ?thesis
  proof cases
    case safe
    then have e: "escape_ascii c = [c]" by (simp add: escape_ascii_def)
    from safe have "c \<noteq> CHR 0x22" "c \<noteq> CHR 0x5C" "0x20 \<le> code c" "code c < 0x80"
      by (simp_all add: html_safe_def)
    from unquote_ascii[OF this] show ?thesis by (simp add: e)
  next
    case bs
    have e: "escape_ascii (CHR 0x5C) = [CHR 0x5C, CHR 0x5C]" by (simp add: escape_ascii_def html_safe_def)
    show ?thesis unfolding bs e by (simp add: simple_escapes)
  next
    case dq
    have e: "escape_ascii (CHR 0x22) = [CHR 0x5C, CHR 0x22]" by (simp add: escape_ascii_def html_safe_def)
    show ?thesis unfolding dq e by (simp add: simple_escapes)
  next
    case nl
    have e: "escape_ascii (CHR 0x0A) = [CHR 0x5C, CHR ''n'']" by (simp add: escape_ascii_def html_safe_def)
    show ?thesis unfolding nl e by (simp add: simple_escapes)
  next
    case cr
    have e: "escape_ascii (CHR 0x0D) = [CHR 0x5C, CHR ''r'']" by (simp add: escape_ascii_def html_safe_def)
    show ?thesis unfolding cr e by (simp add: simple_escapes)
  next
    case tab
    have e: "escape_ascii (CHR 0x09) = [CHR 0x5C, CHR ''t'']" by (simp add: escape_ascii_def html_safe_def)
    show ?thesis unfolding tab e by (simp add: simple_escapes)
  next
    case other
    then have e: "escape_ascii c = [CHR 0x5C, CHR ''u'', CHR ''0'', CHR ''0'',
            hex_digit (code c div 16), hex_digit (code c mod 16)]"
      by (simp add: escape_ascii_def)
    have ns: "\<not> IsSurrogate (code c)" using assms by (simp add: IsSurrogate_def)
    from unquote_u[OF getu4_escape[OF assms] ns, of X] show ?thesis
      by (simp add: e EncodeRune_ascii[OF assms])
  qed
qed

lemma rune_len_ascii: "code c < 0x80 \<Longrightarrow> rune_len (c # cs) = 1"
  by (simp add: rune_len.simps)

lemma rune_len_le: "rune_len s \<le> length s"
  by (cases s) (auto simp: rune_len.simps split: list.splits)

lemma rune_len_prefix:
  "rune_len s = n \<Longrightarrow> n \<noteq> 0 \<Longrightarrow> rune_len (take n s @ Y) = n"
  by (cases s) (auto simp: rune_len.simps split: list.splits if_splits)

lemma EncodeRune_2028: "EncodeRune 0x2028 = [CHR 0xE2, CHR 0x80, CHR 0xA8]"
  by (simp add: EncodeRune_def) (intro conjI char_eqI; simp)

lemma EncodeRune_2029: "EncodeRune 0x2029 = [CHR 0xE2, CHR 0x80, CHR 0xA9]"
  by (simp add: EncodeRune_def) (intro conjI char_eqI; simp)

lemma getu4_2028: "getu4 (CHR ''2'' # CHR ''0'' # CHR ''2'' # CHR ''8'' # X) = Some 0x2028"
  by (simp add: hex_val_def in_range_def)

lemma getu4_2029: "getu4 (CHR ''2'' # CHR ''0'' # CHR ''2'' # CHR ''9'' # X) = Some 0x2029"
  by (simp add: hex_val_def in_range_def)

lemma encode_chars_ascii:
  "code c < 0x80 \<Longrightarrow> encode_chars (c # cs) = escape_ascii c @ encode_chars cs"
  by simp

lemma encode_chars_raw:
  assumes "\<not> code c < 0x80" and "rune_len (c # cs) = n" and "n \<noteq> 0"
  shows "encode_chars (c # cs) =
     (if take n (c # cs) = [CHR 0xE2, CHR 0x80, CHR 0xA8] then
        [CHR 0x5C, CHR ''u'', CHR ''2'', CHR ''0'', CHR ''2'', CHR ''8'']
      else if take n (c # cs) = [CHR 0xE2, CHR 0x80, CHR 0xA9] then
        [CHR 0x5C, CHR ''u'', CHR ''2'', CHR ''0'', CHR ''2'', CHR ''9'']
      else take n (c # cs)) @ encode_chars (drop (n - 1) cs)"
  using assms by (simp add: Let_def del: take_Suc_Cons)

lemma unquote_encode_chars:
  \<open>ValidString s \<Longrightarrow> unquote (encode_chars s @ CHR ''"'' # rest) = Some (s, rest)\<close>
proof (induction "length s" arbitrary: s rule: less_induct)
  case less
  show ?case
  proof (cases s)
    case Nil
    then show ?thesis by simp
  next
    case (Cons c cs)
    define n where "n = rune_len (c # cs)"
    from less.prems Cons have n0: "n \<noteq> 0" and v: "ValidString (drop (n - 1) cs)"
      by (simp_all add: n_def Let_def)
    have nle: "n \<le> Suc (length cs)" using rune_len_le[of "c # cs"] by (simp add: n_def)
    have split: "take n (c # cs) @ drop (n - 1) cs = c # cs"
      using n0 by (cases n) simp_all
    have IH: "unquote (encode_chars (drop (n - 1) cs) @ CHR 0x22 # rest)
                = Some (drop (n - 1) cs, rest)"
      using less.hyps[of "drop (n - 1) cs"] v Cons by simp
    show ?thesis
    proof (cases "code c < 0x80")
      case True
      then have "n = 1" by (simp add: n_def rune_len_ascii)
      with IH have "unquote (encode_chars cs @ CHR 0x22 # rest) = Some (cs, rest)" by simp
      then show ?thesis
        by (simp add: Cons encode_chars_ascii[OF True] unquote_escape_ascii[OF True] prepend_def
              del: encode_chars.simps unquote.simps)
    next
      case False
      note enc = encode_chars_raw[OF False n_def[symmetric] n0]
      let ?Y = "encode_chars (drop (n - 1) cs) @ CHR 0x22 # rest"
      consider (ls) "take n (c # cs) = [CHR 0xE2, CHR 0x80, CHR 0xA8]"
        | (ps) "take n (c # cs) = [CHR 0xE2, CHR 0x80, CHR 0xA9]"
        | (raw) "take n (c # cs) \<noteq> [CHR 0xE2, CHR 0x80, CHR 0xA8]"
                "take n (c # cs) \<noteq> [CHR 0xE2, CHR 0x80, CHR 0xA9]"
        by blast
      then have "unquote (encode_chars (c # cs) @ CHR 0x22 # rest)
                   = prepend (take n (c # cs)) (unquote ?Y)"
      proof cases
        case ls
        have "\<not> IsSurrogate 0x2028" by (simp add: IsSurrogate_def)
        from unquote_u[OF getu4_2028 this, of ?Y] show ?thesis
          by (simp add: enc ls EncodeRune_2028 del: unquote.simps encode_chars.simps)
      next
        case ps
        have "\<not> IsSurrogate 0x2029" by (simp add: IsSurrogate_def)
        from unquote_u[OF getu4_2029 this, of ?Y] show ?thesis
          by (simp add: enc ps EncodeRune_2029 del: unquote.simps encode_chars.simps)
      next
        case raw
        have tk: "take n (c # cs) = c # take (n - 1) cs" using n0 by (cases n) simp_all
        have hi: "0x80 \<le> code c" using False by simp
        have rl: "rune_len (c # take (n - 1) cs @ ?Y) = n"
          using rune_len_prefix[OF n_def[symmetric] n0, of ?Y] by (simp add: tk)
        have len: "length (take (n - 1) cs) = n - 1" using nle n0 by simp
        have t2: "take n (c # take (n - 1) cs @ ?Y) = c # take (n - 1) cs"
          using len n0 by (cases n) simp_all
        have d2: "drop (n - 1) (take (n - 1) cs @ ?Y) = ?Y" using len by simp
        have "unquote (c # take (n - 1) cs @ ?Y) = prepend (take n (c # cs)) (unquote ?Y)"
          using unquote_raw[OF hi rl n0] unfolding append_Cons[symmetric] t2 d2 tk
          by (simp only: append_Cons t2 d2)
        moreover have "encode_chars (c # cs) = take n (c # cs) @ encode_chars (drop (n - 1) cs)"
          using raw by (simp only: enc if_False)
        ultimately show ?thesis
          by (simp add: tk del: unquote.simps encode_chars.simps)
      qed
      with IH split show ?thesis by (simp add: Cons prepend_def del: unquote.simps encode_chars.simps)
    qed
  qed
qed

subsection \<open>The message\<close>

lemmas parse_eval = step_def begin_value_def begin_string_def deliver_def push_def maxNestingDepth_def

lemmas store_eval = field_of_key_def field_name_def store_Tag_def store_ID_def store_Data_def
  zero_message_def message_of_def unmarshal_value_def

lemma lex_envelope_null:
  assumes "ValidString tag"
  shows \<open>lex (''{"tag":'' @ encode_string tag @ '',"id":'' @ FormatUint n @ '',"data":'' @ ''null'' @ ''}'')
    = Some [LBrace, TString ''tag'', Colon, TString tag, Comma,
            TString ''id'', Colon, TNumber (FormatUint n), Comma,
            TString ''data'', Colon, TNull, RBrace]\<close>
  by (simp add: encode_string_def unquote_encode_chars[OF assms] lex_FormatUint cons_token_def
        is_space_def is_digit_def in_range_def prepend_def simple_escape_def
      del: encode_chars.simps)

lemma lex_envelope_bytes:
  assumes "ValidString tag"
  shows \<open>lex (''{"tag":'' @ encode_string tag @ '',"id":'' @ FormatUint n @ '',"data":'' @
              (CHR ''"'' # EncodeToString b @ [CHR ''"'']) @ ''}'')
    = Some [LBrace, TString ''tag'', Colon, TString tag, Comma,
            TString ''id'', Colon, TNumber (FormatUint n), Comma,
            TString ''data'', Colon, TString (EncodeToString b), RBrace]\<close>
  by (simp add: encode_string_def unquote_encode_chars[OF assms] lex_FormatUint cons_token_def
        unquote_EncodeToString
        is_space_def is_digit_def in_range_def prepend_def simple_escape_def
      del: encode_chars.simps)

lemma Unmarshal_Marshal:
  assumes "ValidString (Tag m)"
  shows "\<exists>payload. Marshal m = Inr payload \<and> Unmarshal payload = Inr m"
proof -
  have lt: "unat (ID m) < 2 ^ 64" using unsigned_less[of "ID m"] by simp
  note p = ParseUint_FormatUint[OF lt]
  show ?thesis
  proof (cases "Data m")
    case None
    then have "Marshal m = Inr (''{\"tag\":'' @ encode_string (Tag m) @ '',\"id\":'' @
                 FormatUint (unat (ID m)) @ '',\"data\":'' @ ''null'' @ ''}'')"
      by (simp add: Marshal_def)
    moreover have "Unmarshal (''{\"tag\":'' @ encode_string (Tag m) @ '',\"id\":'' @
                 FormatUint (unat (ID m)) @ '',\"data\":'' @ ''null'' @ ''}'') = Inr m"
      unfolding Unmarshal_def parse_json_def lex_envelope_null[OF assms]
      using None by (simp add: parse_eval store_eval p)
    ultimately show ?thesis by blast
  next
    case (Some b)
    then have "Marshal m = Inr (''{\"tag\":'' @ encode_string (Tag m) @ '',\"id\":'' @
                 FormatUint (unat (ID m)) @ '',\"data\":'' @
                 (CHR 0x22 # EncodeToString b @ [CHR 0x22]) @ ''}'')"
      by (simp add: Marshal_def)
    moreover have "Unmarshal (''{\"tag\":'' @ encode_string (Tag m) @ '',\"id\":'' @
                 FormatUint (unat (ID m)) @ '',\"data\":'' @
                 (CHR 0x22 # EncodeToString b @ [CHR 0x22]) @ ''}'') = Inr m"
      unfolding Unmarshal_def parse_json_def lex_envelope_bytes[OF assms]
      using Some by (simp add: parse_eval store_eval p DecodeString_EncodeToString)
    ultimately show ?thesis by blast
  qed
qed

lemma SendMessage_payload:
  "fst (SendMessage wh tag data h)
     = Marshal \<lparr>Tag = tag, ID = (if h = NilFn then 0 else next_id wh tag), Data = data\<rparr>"
  by (simp add: SendMessage_def RegisterHandler_auto Marshal_def Let_def)

text \<open>
  C1. For every tag that is valid UTF-8, every ID and every data, nil or not, the text that
  Marshal produces for the message decodes, by Unmarshal, to the same message; the text
  SendMessage posts is such a text, for the tag and data it is given and the ID it uses.
\<close>

theorem envelope_round_trip:
  assumes "ValidString tag"
  shows "(\<exists>payload. Marshal \<lparr>Tag = tag, ID = idv, Data = data\<rparr> = Inr payload
            \<and> Unmarshal payload = Inr \<lparr>Tag = tag, ID = idv, Data = data\<rparr>)
       \<and> (\<exists>payload. fst (SendMessage wh tag data h) = Inr payload
            \<and> Unmarshal payload
                = Inr \<lparr>Tag = tag, ID = (if h = NilFn then 0 else next_id wh tag), Data = data\<rparr>)"
proof
  show "\<exists>payload. Marshal \<lparr>Tag = tag, ID = idv, Data = data\<rparr> = Inr payload
            \<and> Unmarshal payload = Inr \<lparr>Tag = tag, ID = idv, Data = data\<rparr>"
    using Unmarshal_Marshal[of "\<lparr>Tag = tag, ID = idv, Data = data\<rparr>"] assms by simp
  show "\<exists>payload. fst (SendMessage wh tag data h) = Inr payload
            \<and> Unmarshal payload
                = Inr \<lparr>Tag = tag, ID = (if h = NilFn then 0 else next_id wh tag), Data = data\<rparr>"
    unfolding SendMessage_payload
    using Unmarshal_Marshal[of "\<lparr>Tag = tag, ID = (if h = NilFn then 0 else next_id wh tag), Data = data\<rparr>"]
      assms by simp
qed

lemma valid_Ready: "ValidString ''Re<ady''"
  by (simp add: rune_len.simps)

lemma marshal_example:
  \<open>Marshal \<lparr>Tag = ''Re<ady'', ID = 17, Data = Some [104, 105]\<rparr>
     = Inr (''{"tag":"Re'' @ [CHR 0x5C] @ ''u003cady","id":17,"data":"aGk="}'')\<close>
  by (simp add: Marshal_def encode_string_def escape_ascii_def html_safe_def hex_digit_def
        FormatUint_large FormatUint_small digit_char_def b64_char_def b64_alphabet_def Let_def)
     (intro conjI char_eqI; simp)

theorem envelope_round_trip_witness:
  \<open>ValidString ''Re<ady''
   \<and> Marshal \<lparr>Tag = ''Re<ady'', ID = 17, Data = Some [104, 105]\<rparr>
       = Inr (''{"tag":"Re'' @ [CHR 0x5C] @ ''u003cady","id":17,"data":"aGk="}'')
   \<and> Unmarshal (''{"tag":"Re'' @ [CHR 0x5C] @ ''u003cady","id":17,"data":"aGk="}'')
       = Inr \<lparr>Tag = ''Re<ady'', ID = 17, Data = Some [104, 105]\<rparr>\<close>
proof -
  from envelope_round_trip[OF valid_Ready, of 17 "Some [104, 105]" "new_handler ''w''" NilFn]
  obtain payload where
    m: "Marshal \<lparr>Tag = ''Re<ady'', ID = 17, Data = Some [104, 105]\<rparr> = Inr payload" and
    u: "Unmarshal payload = Inr \<lparr>Tag = ''Re<ady'', ID = 17, Data = Some [104, 105]\<rparr>"
    by blast
  from m have p: \<open>payload = ''{"tag":"Re'' @ [CHR 0x5C] @ ''u003cady","id":17,"data":"aGk="}''\<close>
    unfolding marshal_example by (rule sum.inject(2)[THEN iffD1, symmetric])
  from u have \<open>Unmarshal (''{"tag":"Re'' @ [CHR 0x5C] @ ''u003cady","id":17,"data":"aGk="}'')
       = Inr \<lparr>Tag = ''Re<ady'', ID = 17, Data = Some [104, 105]\<rparr>\<close>
    unfolding p .
  with valid_Ready marshal_example show ?thesis by (intro conjI)
qed

text \<open>
  The tag has to be valid UTF-8: the encoder writes a byte that is not as U+FFFD, and
  that is what comes back.
\<close>

lemma invalid_tag_replaced:
  \<open>Marshal \<lparr>Tag = [CHR 0xFF], ID = 0, Data = None\<rparr>
      = Inr (''{"tag":"'' @ [CHR 0x5C] @ ''ufffd","id":0,"data":null}'')
   \<and> Unmarshal (''{"tag":"'' @ [CHR 0x5C] @ ''ufffd","id":0,"data":null}'')
      = Inr \<lparr>Tag = [CHR 0xEF, CHR 0xBF, CHR 0xBD], ID = 0, Data = None\<rparr>\<close>
  by (simp add: Marshal_def encode_string_def rune_len.simps in_range_def FormatUint_small
        digit_char_0 json_eval)
     (intro conjI char_eqI; simp)

end
